theory Spec2Isabelle
  imports Main
begin

section \<open>Stack-frame recovery of fcd (pass\_locals.cpp)\<close>

text \<open>
  A shallow embedding of the \<open>IdentifyLocals\<close> function pass. The host IR (LLVM) is
  not part of the repository: its types, values, instructions, use lists and data layout
  are modelled here as far as the pass reads and writes them.
\<close>

subsection \<open>Machine integers\<close>

text \<open>
  Offsets are \<open>int64_t\<close>, sizes are \<open>uint64_t\<close>/\<open>size_t\<close>. They are modelled as
  \<open>int\<close> and \<open>nat\<close> with the conversions written out.
\<close>

definition to_int64 :: "int \<Rightarrow> int" where
  "to_int64 x = (x + 9223372036854775808) mod 18446744073709551616 - 9223372036854775808"

definition to_uint64 :: "int \<Rightarrow> nat" where
  "to_uint64 x = nat (x mod 18446744073709551616)"

subsection \<open>Host IR: types\<close>

text \<open>
  \<open>StructTy ts packed\<close> is a literal struct type. \<open>VoidTy\<close> stands for the types
  that are not sized.
\<close>

datatype ty =
    VoidTy
  | FloatTy
  | DoubleTy
  | IntegerTy nat
  | StructTy "ty list" bool
  | ArrayTy ty nat
  | PointerTy ty

fun isSized :: "ty \<Rightarrow> bool" where
  "isSized VoidTy = False"
| "isSized (StructTy ts packed) = list_all isSized ts"
| "isSized (ArrayTy t n) = isSized t"
| "isSized t = True"

fun isIntegerTy :: "ty \<Rightarrow> bool" where
  "isIntegerTy (IntegerTy n) = True"
| "isIntegerTy t = False"

text \<open>
  The data layout is an argument of the pass (\<open>const DataLayout& dl\<close>); the pass only
  asks it for store sizes.
\<close>

type_synonym DataLayout = "ty \<Rightarrow> nat"

text \<open>
  Modelled from the spec: the data layout of the end-to-end scenarios (64-bit pointers,
  \<open>int32\<close> = 4 bytes), which the host library supplies. Store size is the size in bits
  rounded up to bytes; an array is as large as its elements' allocation sizes.
\<close>

definition roundUp :: "nat \<Rightarrow> nat \<Rightarrow> nat" where
  "roundUp n a = ((n + a - 1) div a) * a"

fun abiAlign :: "ty \<Rightarrow> nat" where
  "abiAlign VoidTy = 1"
| "abiAlign FloatTy = 4"
| "abiAlign DoubleTy = 8"
| "abiAlign (IntegerTy n) = (if n \<le> 8 then 1 else if n \<le> 16 then 2 else if n \<le> 32 then 4 else 8)"
| "abiAlign (StructTy ts packed) = (if packed then 1 else fold max (map abiAlign ts) 1)"
| "abiAlign (ArrayTy t n) = abiAlign t"
| "abiAlign (PointerTy t) = 8"

fun allocSize :: "ty \<Rightarrow> nat"
  and structSize :: "bool \<Rightarrow> nat \<Rightarrow> ty list \<Rightarrow> nat" where
  "allocSize VoidTy = 0"
| "allocSize FloatTy = 4"
| "allocSize DoubleTy = 8"
| "allocSize (IntegerTy n) = roundUp ((n + 7) div 8) (abiAlign (IntegerTy n))"
| "allocSize (StructTy ts packed) =
     roundUp (structSize packed 0 ts) (abiAlign (StructTy ts packed))"
| "allocSize (ArrayTy t n) = n * allocSize t"
| "allocSize (PointerTy t) = 8"
| "structSize packed off [] = off"
| "structSize packed off (t # ts) =
     structSize packed ((if packed then off else roundUp off (abiAlign t)) + allocSize t) ts"

fun dl64 :: DataLayout where
  "dl64 (IntegerTy n) = (n + 7) div 8"
| "dl64 t = allocSize t"

subsection \<open>Typed accesses and overlap windows\<close>

text \<open>
  \<open>OverlappingTypedAccesses::TypedAccess\<close>. The \<open>object\<close> pointer identifies a stack
  object; any type of keys \<open>'k\<close> can stand for the addresses.
\<close>

record 'k TypedAccess =
  ta_offset :: int
  ta_object :: 'k
  ta_type :: ty

definition ta_size :: "DataLayout \<Rightarrow> 'k TypedAccess \<Rightarrow> nat" where
  "ta_size dl a = (if isSized (ta_type a) then dl (ta_type a) else 0)"

definition ta_endOffset :: "DataLayout \<Rightarrow> 'k TypedAccess \<Rightarrow> int" where
  "ta_endOffset dl a = to_int64 (ta_offset a + int (ta_size dl a))"

text \<open>
  \<open>getTypePriority\<close>: the table is indexed by the host's type ids and has entries for
  array, struct, pointer, \<open>float\<close> and integer; every other type gets 0.
\<close>

fun getTypePriority :: "ty \<Rightarrow> nat" where
  "getTypePriority (ArrayTy t n) = 5"
| "getTypePriority (StructTy ts packed) = 4"
| "getTypePriority (PointerTy t) = 3"
| "getTypePriority FloatTy = 2"
| "getTypePriority (IntegerTy n) = 1"
| "getTypePriority t = 0"

text \<open>
  \<open>pad\<close>: the filler types for a gap of \<open>difference\<close> bytes, in the order in which they
  are written to the output iterator. \<open>difference\<close> only decreases, so no \<open>size_t\<close>
  operation wraps. \<open>pad_loop i\<close> is the \<open>for\<close> loop with counter \<open>i\<close>.
\<close>

function pad_loop :: "nat \<Rightarrow> nat \<Rightarrow> ty list" where
  "pad_loop i difference =
     (if i > 0 \<and> difference > 0
      then (if difference \<ge> i
            then IntegerTy (i * 8) # pad_loop (i div 2) (difference - i)
            else pad_loop (i div 2) difference)
      else [])"
  by pat_completeness auto
termination
  by (relation "measure fst") auto

definition pad :: "nat \<Rightarrow> ty list" where
  "pad difference =
     (if difference > 16
      then ArrayTy (IntegerTy 64) (difference div 8)
             # pad_loop 8 (difference - (difference div 8) * 8)
      else pad_loop 8 difference)"

text \<open>\<open>OverlappingTypedAccesses::endOffset\<close> and \<open>insert\<close>; the window is the vector
  \<open>accesses\<close>.\<close>

definition window_endOffset :: "DataLayout \<Rightarrow> 'k TypedAccess list \<Rightarrow> int" where
  "window_endOffset dl accesses =
     (if length accesses = 0 then 0 else ta_endOffset dl (last accesses))"

definition insert_access ::
  "DataLayout \<Rightarrow> 'k TypedAccess list \<Rightarrow> int \<Rightarrow> 'k \<Rightarrow> ty \<Rightarrow> bool \<times> 'k TypedAccess list" where
  "insert_access dl accesses offset object t =
     (if length accesses \<noteq> 0 \<and> ta_endOffset dl (last accesses) \<le> offset
      then (False, accesses)
      else (True, accesses @ [\<lparr>ta_offset = offset, ta_object = object, ta_type = t\<rparr>]))"

text \<open>
  Assertions of the source are checked: a failed \<open>assert\<close> (or a failed \<open>cast<>\<close> of
  the host library, which asserts the dynamic type) ends the run with a failure.
\<close>

datatype failure =
    Assert_reduce_empty
  | Assert_gep_missing
  | Assert_user_kind
  | Assert_offset_sign
  | Assert_type_set_twice
  | Assert_parent_set_twice
  | Assert_cast_Structure
  | Null_pointer
  | Invalid_gep
  | Bad_argument_index
  | No_insertion_point
  | Out_of_fuel

text \<open>The comparison handed to \<open>std::sort\<close> in \<open>reduce\<close>.\<close>

definition access_before :: "DataLayout \<Rightarrow> 'k TypedAccess \<Rightarrow> 'k TypedAccess \<Rightarrow> bool" where
  "access_before dl a b =
     (if ta_offset a > ta_offset b then True
      else if ta_offset a < ta_offset b then False
      else if dl (ta_type a) > dl (ta_type b) then True
      else if dl (ta_type a) < dl (ta_type b) then False
      else getTypePriority (ta_type a) > getTypePriority (ta_type b))"

text \<open>
  \<open>std::sort\<close> leaves the order of equivalent elements open; the model sorts by insertion
  and keeps equivalent accesses in their order in the window.
\<close>

fun sort_insert :: "('a \<Rightarrow> 'a \<Rightarrow> bool) \<Rightarrow> 'a \<Rightarrow> 'a list \<Rightarrow> 'a list" where
  "sort_insert lt x [] = [x]"
| "sort_insert lt x (y # ys) =
     (if lt y x then y # sort_insert lt x ys else x # y # ys)"

definition sort_by :: "('a \<Rightarrow> 'a \<Rightarrow> bool) \<Rightarrow> 'a list \<Rightarrow> 'a list" where
  "sort_by lt xs = foldr (sort_insert lt) xs []"

text \<open>\<open>gepIndices[object] = i\<close> on an \<open>unordered_map\<close>, kept as an association list.\<close>

fun assign :: "'k \<Rightarrow> 'v \<Rightarrow> ('k \<times> 'v) list \<Rightarrow> ('k \<times> 'v) list" where
  "assign k v [] = [(k, v)]"
| "assign k v ((k', v') # m) = (if k = k' then (k, v) # m else (k', v') # assign k v m)"

text \<open>
  The state of the loop of \<open>reduce\<close> over the sorted accesses: the deque \<open>structBody\<close>,
  \<open>gepIndices\<close>, \<open>fieldCount\<close>, \<open>startOffset\<close> and \<open>endOffset\<close>.
\<close>

record 'k reduce_state =
  r_structBody :: "ty list"
  r_gepIndices :: "('k \<times> int) list"
  r_fieldCount :: nat
  r_startOffset :: int
  r_endOffset :: int

definition reduce_step :: "DataLayout \<Rightarrow> 'k reduce_state \<Rightarrow> 'k TypedAccess \<Rightarrow> 'k reduce_state" where
  "reduce_step dl s iter =
     (let iterFront = ta_offset iter;
          frontDifference = to_int64 (r_startOffset s - iterFront);
          s1 = (if frontDifference > 0
                then s\<lparr>r_structBody := rev (pad (nat frontDifference)) @ r_structBody s,
                       r_startOffset := iterFront,
                       r_fieldCount := r_fieldCount s + 1\<rparr>
                else s);
          iterEnd = ta_endOffset dl iter;
          backDifference = to_int64 (iterEnd - r_endOffset s1);
          s2 = (if backDifference > 0
                then s1\<lparr>r_structBody := r_structBody s1 @ pad (nat backDifference),
                        r_endOffset := iterEnd\<rparr>
                else s1)
      in s2\<lparr>r_gepIndices := assign (ta_object iter) (- int (length (r_structBody s2))) (r_gepIndices s2)\<rparr>)"

text \<open>
  \<open>reduce\<close> returns the number of useful fields, \<open>outputType\<close> and \<open>gepIndices\<close>.
\<close>

definition reduce ::
  "DataLayout \<Rightarrow> 'k TypedAccess list \<Rightarrow> failure + (nat \<times> ty \<times> ('k \<times> int) list)" where
  "reduce dl accesses =
     (case accesses of
        [] \<Rightarrow> Inl Assert_reduce_empty
      | [a] \<Rightarrow> Inr (1, ta_type a, [])
      | _ \<Rightarrow>
         (case sort_by (access_before dl) accesses of
            [] \<Rightarrow> Inl Assert_reduce_empty
          | first # rest \<Rightarrow>
             (let s0 = \<lparr>r_structBody = [ta_type first],
                        r_gepIndices = [(ta_object first, - 1)],
                        r_fieldCount = 1,
                        r_startOffset = ta_offset first,
                        r_endOffset = ta_endOffset dl first\<rparr>;
                  s = foldl (reduce_step dl) s0 rest
              in if r_fieldCount s = 1
                 then Inr (1, hd (r_structBody s), [])
                 else Inr (r_fieldCount s, StructTy (r_structBody s) True,
                           map (\<lambda>(k, i). (k, i + int (length (r_structBody s)))) (r_gepIndices s)))))"

subsection \<open>Host IR: values, instructions, functions\<close>

text \<open>
  A value is a formal argument, the result of an instruction, or an integer constant
  (\<open>ConstantInt bits v\<close>, \<open>v\<close> the zero-extended value, never negative). \<open>Instr k\<close> is instruction
  number \<open>k\<close> of the function; \<open>dyn_cast<Instruction>\<close> succeeds on it alone.
\<close>

datatype Value = Argument nat | Instr nat | ConstantInt nat int

datatype opcode =
    Add | Sub | Mul | Xor
  | IntToPtr | PtrToInt | BitCast | Trunc | ZExt
  | Load | Store | Call | PHI | ICmp | Ret | Br | GetElementPtr | Alloca

fun isBinaryOperator :: "opcode \<Rightarrow> bool" where
  "isBinaryOperator Add = True"
| "isBinaryOperator Sub = True"
| "isBinaryOperator Mul = True"
| "isBinaryOperator Xor = True"
| "isBinaryOperator opc = False"

fun isCastInst :: "opcode \<Rightarrow> bool" where
  "isCastInst IntToPtr = True"
| "isCastInst PtrToInt = True"
| "isCastInst BitCast = True"
| "isCastInst Trunc = True"
| "isCastInst ZExt = True"
| "isCastInst opc = False"

text \<open>
  A store has the operands \<open>[value, pointer]\<close>, a binary operator its two operands, a
  cast and a load their one operand.
\<close>

record Instruction =
  getOpcode :: opcode
  getType :: ty
  getOperands :: "Value list"

text \<open>
  A function: the types of its formal arguments; its instructions, numbered in the order
  of their creation; the basic blocks, entry block first, each the list of the numbers
  of the instructions placed in it (an instruction created without an insertion point
  is in no block); the metadata \<open>md::getStackPointerArgument\<close> reads; the instructions
  \<open>md::setStackFrame\<close> has tagged.
\<close>

record Function =
  arguments :: "ty list"
  instructions :: "Instruction list"
  blocks :: "nat list list"
  stackPointerArgument :: "nat option"
  stackFrameTags :: "nat list"

definition getInst :: "Function \<Rightarrow> nat \<Rightarrow> Instruction" where
  "getInst f k = instructions f ! k"

definition getOperand :: "Instruction \<Rightarrow> nat \<Rightarrow> Value" where
  "getOperand i n = getOperands i ! n"

fun valueType :: "Function \<Rightarrow> Value \<Rightarrow> ty" where
  "valueType f (Argument k) = arguments f ! k"
| "valueType f (Instr k) = getType (getInst f k)"
| "valueType f (ConstantInt bits v) = IntegerTy bits"

text \<open>
  The use list of a value, one entry per use. The host keeps the order; the model lists
  the users from the most recently created instruction to the oldest.
\<close>

definition users :: "Function \<Rightarrow> Value \<Rightarrow> nat list" where
  "users f v =
     concat (map (\<lambda>k. replicate (count_list (getOperands (getInst f k)) v) k)
       (rev [0..<length (instructions f)]))"

definition getLimitedValue :: "int \<Rightarrow> int" where
  "getLimitedValue v = min v 18446744073709551615"

subsection \<open>Offset classifier\<close>

text \<open>
  \<open>std::map<int64_t, Instruction*>\<close>: an association list in ascending key order;
  \<open>map_insert\<close> is \<open>std::map::insert\<close>, which leaves a present key alone.
\<close>

type_synonym offset_map = "(int \<times> nat) list"

fun map_insert :: "int \<Rightarrow> nat \<Rightarrow> offset_map \<Rightarrow> offset_map" where
  "map_insert k v [] = [(k, v)]"
| "map_insert k v ((k', v') # m) =
     (if k = k' then (k', v') # m
      else if k < k' then (k, v) # (k', v') # m
      else (k', v') # map_insert k v m)"

fun analyzeObject_loop ::
  "Function \<Rightarrow> Value \<Rightarrow> nat list \<Rightarrow> bool \<times> offset_map \<times> offset_map
     \<Rightarrow> (bool \<times> offset_map \<times> offset_map) option" where
  "analyzeObject_loop f base [] st = Some st"
| "analyzeObject_loop f base (user # rest) (hasCastInst, constantOffsets, variableOffsetStrides) =
     (let binOp = getInst f user in
      if isBinaryOperator (getOpcode binOp) then
        (if getOpcode binOp \<noteq> Add then None
         else (case getOperand binOp (if getOperand binOp 0 = base then 1 else 0) of
                 ConstantInt bits v \<Rightarrow>
                   analyzeObject_loop f base rest
                     (hasCastInst,
                      map_insert (to_int64 (getLimitedValue v)) user constantOffsets,
                      variableOffsetStrides)
               | _ \<Rightarrow> None))
      else if isCastInst (getOpcode binOp) then
        analyzeObject_loop f base rest
          (hasCastInst \<or> getOpcode binOp = IntToPtr, constantOffsets, variableOffsetStrides)
      else analyzeObject_loop f base rest (hasCastInst, constantOffsets, variableOffsetStrides))"

text \<open>\<open>None\<close> is the result \<open>false\<close>; \<open>Some\<close> holds the three output parameters.\<close>

definition analyzeObject ::
  "Function \<Rightarrow> Value \<Rightarrow> (bool \<times> offset_map \<times> offset_map) option" where
  "analyzeObject f base = analyzeObject_loop f base (users f base) (False, [], [])"

subsection \<open>Abstract stack model\<close>

datatype StackObject = Object Value | Structure "(int \<times> StackObject) list"

fun collect_fields ::
  "int \<Rightarrow> (int \<times> (failure + StackObject option)) list \<Rightarrow> failure + (int \<times> StackObject) list" where
  "collect_fields front [] = Inr []"
| "collect_fields front ((c, r) # rest) =
     (case r of
        Inl e \<Rightarrow> Inl e
      | Inr t \<Rightarrow>
         (case collect_fields front rest of
            Inl e \<Rightarrow> Inl e
          | Inr fs \<Rightarrow>
             Inr ((case t of None \<Rightarrow> [] | Some obj \<Rightarrow> [(to_int64 (c - front), obj)]) @ fs)))"

text \<open>
  \<open>readObject\<close> follows the use lists, which a function in SSA form keeps acyclic; the
  model counts the depth of the recursion down from \<open>fuel\<close>. \<open>Inr None\<close> is the result
  \<open>nullptr\<close>. The \<open>parent\<close> argument is dropped: the constructor of \<open>StackObject\<close>
  stores \<open>nullptr\<close> whatever it is given.
\<close>

fun readObject :: "nat \<Rightarrow> Function \<Rightarrow> Value \<Rightarrow> failure + StackObject option" where
  "readObject 0 f base = Inl Out_of_fuel"
| "readObject (Suc fuel) f base =
     (case analyzeObject f base of
        None \<Rightarrow> Inr None
      | Some (hasCastInst, constantOffsets, variableOffsetsStrides) \<Rightarrow>
         if length variableOffsetsStrides > 0 then Inr None
         else if length constantOffsets > 0 then
           (let front = fst (hd constantOffsets);
                back = fst (last constantOffsets)
            in if \<not> (front = 0 \<or> back = 0 \<or> (front < 0) = (back < 0))
               then Inl Assert_offset_sign
               else (case collect_fields front
                            (map (\<lambda>(c, i). (c, readObject fuel f (Instr i))) constantOffsets) of
                       Inl e \<Rightarrow> Inl e
                     | Inr fs \<Rightarrow>
                        Inr (Some (Structure
                          ((if hasCastInst then [(0, Object base)] else []) @ fs)))))
         else Inr (Some (Object base)))"

subsection \<open>Witnessed types of a leaf\<close>

text \<open>A loop that stops at the first failure.\<close>

fun foldE :: "('a \<Rightarrow> 's \<Rightarrow> failure + 's) \<Rightarrow> 'a list \<Rightarrow> 's \<Rightarrow> failure + 's" where
  "foldE g [] s = Inr s"
| "foldE g (x # xs) s = (case g x s of Inl e \<Rightarrow> Inl e | Inr s' \<Rightarrow> foldE g xs s')"

text \<open>
  \<open>SmallPtrSet<Type*, N>\<close>, as the list of its elements in the order of their insertion.
\<close>

definition set_insert :: "'a \<Rightarrow> 'a list \<Rightarrow> 'a list" where
  "set_insert x xs = (if x \<in> set xs then xs else xs @ [x])"

fun getCastTypes :: "nat \<Rightarrow> Function \<Rightarrow> nat \<Rightarrow> ty list \<Rightarrow> failure + ty list" where
  "getCastTypes 0 f cast types = Inl Out_of_fuel"
| "getCastTypes (Suc fuel) f cast types =
     foldE (\<lambda>user types.
        if getOpcode (getInst f user) = Load then
          (let loadType = getType (getInst f user);
               types1 = set_insert loadType types
           in if isIntegerTy loadType then
                foldE (\<lambda>loadUser types.
                   if isCastInst (getOpcode (getInst f loadUser))
                      \<and> getOpcode (getInst f loadUser) = IntToPtr
                   then (case getCastTypes fuel f loadUser [] of
                           Inl e \<Rightarrow> Inl e
                         | Inr castTypes \<Rightarrow>
                            Inr (fold (\<lambda>t types. set_insert (PointerTy t) types) castTypes types))
                   else Inr types)
                  (users f (Instr user)) types1
              else Inr types1)
        else if getOpcode (getInst f user) = Store then
          Inr (set_insert (valueType f (getOperand (getInst f user) 0)) types)
        else Inr types)
       (users f (Instr cast)) types"

definition getUnionTypes :: "nat \<Rightarrow> Function \<Rightarrow> Value \<Rightarrow> ty list \<Rightarrow> failure + ty list" where
  "getUnionTypes fuel f offset types =
     (case foldE (\<lambda>offsetUser (types, defaultsToVoid).
             if isCastInst (getOpcode (getInst f offsetUser)) then
               (case getCastTypes fuel f offsetUser types of
                  Inl e \<Rightarrow> Inl e
                | Inr types' \<Rightarrow> Inr (types', defaultsToVoid))
             else if getOpcode (getInst f offsetUser) = Store
                     \<or> getOpcode (getInst f offsetUser) = Call then
               Inr (types, True)
             else if isBinaryOperator (getOpcode (getInst f offsetUser))
                     \<or> getOpcode (getInst f offsetUser) = PHI then
               Inr (types, defaultsToVoid)
             else Inl Assert_user_kind)
            (users f offset) (types, False) of
        Inl e \<Rightarrow> Inl e
      | Inr (types', defaultsToVoid) \<Rightarrow>
         Inr (if length types' = length types \<and> defaultsToVoid
              then set_insert (IntegerTy 8) types' else types'))"

subsection \<open>Layout and pointer paths: \<open>LlvmStackFrame\<close>\<close>

text \<open>
  A stack object is owned by exactly one field of one structure, so its address is
  modelled as its path from the root: the positions of the fields that lead to it.
  A link's address is its position in the deque \<open>links\<close>. The index of a link is
  always built by \<open>ConstantInt::get\<close>; the model keeps its bit width and value.
\<close>

type_synonym objkey = "nat list"

record GepLink =
  link_parent :: "nat option"
  link_index :: "(nat \<times> int) option"
  link_expectedType :: "ty option"

record LlvmStackFrame =
  links :: "GepLink list"
  linkMap :: "(objkey \<times> nat) list"
  typeMap :: "(objkey \<times> ty) list"
  allObjects :: "(objkey \<times> Value) list"

definition emptyFrame :: LlvmStackFrame where
  "emptyFrame = \<lparr>links = [], linkMap = [], typeMap = [], allObjects = []\<rparr>"

definition createLink :: "LlvmStackFrame \<Rightarrow> LlvmStackFrame \<times> nat" where
  "createLink fr =
     (fr\<lparr>links := links fr
             @ [\<lparr>link_parent = None, link_index = None, link_expectedType = None\<rparr>]\<rparr>,
      length (links fr))"

definition linkFor :: "LlvmStackFrame \<Rightarrow> objkey \<Rightarrow> LlvmStackFrame \<times> nat" where
  "linkFor fr k =
     (case map_of (linkMap fr) k of
        Some l \<Rightarrow> (fr, l)
      | None \<Rightarrow>
         (let (fr', l) = createLink fr in (fr'\<lparr>linkMap := linkMap fr' @ [(k, l)]\<rparr>, l)))"

definition setIndex :: "LlvmStackFrame \<Rightarrow> nat \<Rightarrow> nat \<times> int \<Rightarrow> ty \<Rightarrow> LlvmStackFrame" where
  "setIndex fr l idx t =
     fr\<lparr>links := (links fr)[l := (links fr ! l)\<lparr>link_index := Some idx,
                                               link_expectedType := Some t\<rparr>]\<rparr>"

definition setParent :: "LlvmStackFrame \<Rightarrow> nat \<Rightarrow> nat \<Rightarrow> failure + LlvmStackFrame" where
  "setParent fr l p =
     (if link_parent (links fr ! l) \<noteq> None then Inl Assert_parent_set_twice
      else Inr (fr\<lparr>links := (links fr)[l := (links fr ! l)\<lparr>link_parent := Some p\<rparr>]\<rparr>))"

definition getNaiveType :: "LlvmStackFrame \<Rightarrow> objkey \<Rightarrow> ty option" where
  "getNaiveType fr k = map_of (typeMap fr) k"

definition reduceStructField ::
  "DataLayout \<Rightarrow> LlvmStackFrame \<Rightarrow> objkey TypedAccess list \<Rightarrow> nat \<Rightarrow> int
     \<Rightarrow> failure + (LlvmStackFrame \<times> ty)" where
  "reduceStructField dl fr typedAccesses parentLink idx =
     (case reduce dl typedAccesses of
        Inl e \<Rightarrow> Inl e
      | Inr (count, resultType, gep) \<Rightarrow>
         if count = 0 then Inl Assert_reduce_empty
         else
           (let linkIndex = (32, idx mod 4294967296) in
            if count = 1 then
              (case foldE (\<lambda>access fr.
                      let (fr1, fieldLink) = linkFor fr (ta_object access)
                      in setParent (setIndex fr1 fieldLink linkIndex (ta_type access))
                           fieldLink parentLink)
                    typedAccesses fr of
                 Inl e \<Rightarrow> Inl e
               | Inr fr' \<Rightarrow> Inr (fr', resultType))
            else
              (let (fr1, structureLink) = createLink fr in
               case setParent fr1 structureLink parentLink of
                 Inl e \<Rightarrow> Inl e
               | Inr fr2 \<Rightarrow>
                  (case foldE (\<lambda>access fr.
                          case map_of gep (ta_object access) of
                            None \<Rightarrow> Inl Assert_gep_missing
                          | Some i \<Rightarrow>
                             (let (fr1, fieldLink) = linkFor fr (ta_object access)
                              in setParent
                                   (setIndex fr1 fieldLink (32, i mod 4294967296) (ta_type access))
                                   fieldLink structureLink))
                        typedAccesses (setIndex fr2 structureLink linkIndex resultType) of
                     Inl e \<Rightarrow> Inl e
                   | Inr fr' \<Rightarrow> Inr (fr', resultType)))))"

text \<open>
  The loop of \<open>representObject(const ObjectStackObject*)\<close> that inserts every witnessed
  type at offset 0; \<open>None\<close> when an insertion is refused.
\<close>

fun insert_types ::
  "DataLayout \<Rightarrow> objkey \<Rightarrow> ty list \<Rightarrow> objkey TypedAccess list \<Rightarrow> objkey TypedAccess list option" where
  "insert_types dl object [] typedAccesses = Some typedAccesses"
| "insert_types dl object (t # types) typedAccesses =
     (case insert_access dl typedAccesses 0 object t of
        (False, _) \<Rightarrow> None
      | (True, typedAccesses') \<Rightarrow> insert_types dl object types typedAccesses')"

text \<open>\<open>Inr None\<close> is the result \<open>false\<close>, \<open>Inr (Some fr)\<close> the result \<open>true\<close> with
  the frame as it is then.\<close>

definition representLeaf ::
  "nat \<Rightarrow> DataLayout \<Rightarrow> Function \<Rightarrow> objkey \<Rightarrow> Value \<Rightarrow> LlvmStackFrame
     \<Rightarrow> failure + LlvmStackFrame option" where
  "representLeaf fuel dl f object offset fr =
     (case getUnionTypes fuel f offset [] of
        Inl e \<Rightarrow> Inl e
      | Inr types \<Rightarrow>
         (case insert_types dl object types [] of
            None \<Rightarrow> Inr None
          | Some typedAccesses \<Rightarrow>
             (case reduce dl typedAccesses of
                Inl e \<Rightarrow> Inl e
              | Inr (count, resultType, gep) \<Rightarrow>
                 if count \<noteq> 1 then Inr None
                 else if map_of (typeMap fr) object \<noteq> None then Inl Assert_type_set_twice
                 else Inr (Some (fr\<lparr>typeMap := typeMap fr @ [(object, resultType)],
                                     allObjects := allObjects fr @ [(object, offset)]\<rparr>)))))"

text \<open>
  \<open>representObject\<close> on a \<open>StackObject*\<close> dispatches on the dynamic type;
  \<open>representFields\<close> is the loop over the fields of a structure, with the number of the
  field reached and the loop's state (frame, \<open>fieldTypes\<close>, \<open>typedAccesses\<close>).
\<close>

fun representObject ::
  "nat \<Rightarrow> DataLayout \<Rightarrow> Function \<Rightarrow> objkey \<Rightarrow> StackObject \<Rightarrow> LlvmStackFrame
     \<Rightarrow> failure + LlvmStackFrame option"
  and representFields ::
  "nat \<Rightarrow> DataLayout \<Rightarrow> Function \<Rightarrow> objkey \<Rightarrow> nat \<Rightarrow> nat \<Rightarrow> (int \<times> StackObject) list
     \<Rightarrow> LlvmStackFrame \<times> ty list \<times> objkey TypedAccess list
     \<Rightarrow> failure + (LlvmStackFrame \<times> ty list \<times> objkey TypedAccess list) option" where
  "representObject fuel dl f object (Object offset) fr = representLeaf fuel dl f object offset fr"
| "representObject fuel dl f object (Structure members) fr =
     (let (fr1, thisLink) = linkFor fr object in
      case representFields fuel dl f object thisLink 0 members (fr1, [], []) of
        Inl e \<Rightarrow> Inl e
      | Inr None \<Rightarrow> Inr None
      | Inr (Some (fr2, fieldTypes, typedAccesses)) \<Rightarrow>
         (case (if typedAccesses \<noteq> []
                then (case reduceStructField dl fr2 typedAccesses thisLink
                             (int (length fieldTypes)) of
                        Inl e \<Rightarrow> Inl e
                      | Inr (fr3, result) \<Rightarrow> Inr (fr3, fieldTypes @ [result]))
                else Inr (fr2, fieldTypes)) of
            Inl e \<Rightarrow> Inl e
          | Inr (fr3, fieldTypes') \<Rightarrow>
             if map_of (typeMap fr3) object \<noteq> None then Inl Assert_type_set_twice
             else Inr (Some (fr3\<lparr>typeMap := typeMap fr3 @ [(object, StructTy fieldTypes' True)]\<rparr>))))"
| "representFields fuel dl f object thisLink i [] st = Inr (Some st)"
| "representFields fuel dl f object thisLink i ((offset, fieldObject) # rest)
       (fr, fieldTypes, typedAccesses) =
     (case representObject fuel dl f (object @ [i]) fieldObject fr of
        Inl e \<Rightarrow> Inl e
      | Inr None \<Rightarrow> Inr None
      | Inr (Some fr1) \<Rightarrow>
         (case map_of (typeMap fr1) (object @ [i]) of
            None \<Rightarrow> Inl Null_pointer
          | Some fieldType \<Rightarrow>
             (case insert_access dl typedAccesses offset (object @ [i]) fieldType of
                (True, typedAccesses') \<Rightarrow>
                  representFields fuel dl f object thisLink (Suc i) rest
                    (fr1, fieldTypes, typedAccesses')
              | (False, _) \<Rightarrow>
                 (case reduceStructField dl fr1 typedAccesses thisLink (int (length fieldTypes)) of
                    Inl e \<Rightarrow> Inl e
                  | Inr (fr2, result) \<Rightarrow>
                     (let padding = to_uint64 (offset - window_endOffset dl typedAccesses);
                          fieldTypes' = (fieldTypes @ [result])
                            @ (if padding > 0 then [ArrayTy (IntegerTy 8) padding] else [])
                      in representFields fuel dl f object thisLink (Suc i) rest
                           (fr2, fieldTypes',
                            snd (insert_access dl [] offset (object @ [i]) fieldType)))))))"

text \<open>The static \<open>LlvmStackFrame::representObject\<close>, called on the root.\<close>

definition representRoot ::
  "nat \<Rightarrow> DataLayout \<Rightarrow> Function \<Rightarrow> StackObject \<Rightarrow> failure + LlvmStackFrame option" where
  "representRoot fuel dl f object =
     (case representObject fuel dl f [] object emptyFrame of
        Inl e \<Rightarrow> Inl e
      | Inr None \<Rightarrow> Inr None
      | Inr (Some fr) \<Rightarrow>
         (case getNaiveType fr [] of
            None \<Rightarrow> Inl Null_pointer
          | Some rootType \<Rightarrow>
             (let (fr1, l) = linkFor fr [] in Inr (Some (setIndex fr1 l (64, 0) rootType)))))"

subsection \<open>Emitting instructions\<close>

text \<open>
  Modelled from the spec: \<open>indexed_type(base_type, index_vector)\<close> of the host IR, the
  type a load through an indexed-element instruction with these indices would read, given
  the pointer type of the base; \<open>None\<close> when the indices do not fit the type.
\<close>

fun typeAtIndices :: "ty \<Rightarrow> Value list \<Rightarrow> ty option" where
  "typeAtIndices t [] = Some t"
| "typeAtIndices (StructTy ts packed) (ConstantInt bits v # idxs) =
     (if 0 \<le> v \<and> nat v < length ts then typeAtIndices (ts ! nat v) idxs else None)"
| "typeAtIndices (ArrayTy t n) (i # idxs) = typeAtIndices t idxs"
| "typeAtIndices t (i # idxs) = None"

fun getIndexedType :: "ty \<Rightarrow> Value list \<Rightarrow> ty option" where
  "getIndexedType (PointerTy t) (i # idxs) = typeAtIndices t idxs"
| "getIndexedType t idxs = None"

fun insert_before :: "nat \<Rightarrow> nat \<Rightarrow> nat list \<Rightarrow> nat list" where
  "insert_before k new [] = []"
| "insert_before k new (x # xs) =
     (if x = k then new # x # xs else x # insert_before k new xs)"

text \<open>
  Creating an instruction with the host's constructors: the instruction gets the next
  number; with an insertion point it is placed before that instruction in its block,
  with the insertion point \<open>nullptr\<close> it is placed in no block. An insertion point that
  is itself in no block has no parent block to insert into.
\<close>

definition createInst :: "Function \<Rightarrow> Instruction \<Rightarrow> nat option \<Rightarrow> failure + (Function \<times> nat)" where
  "createInst f i insertionPoint =
     (case insertionPoint of
        None \<Rightarrow> Inr (f\<lparr>instructions := instructions f @ [i]\<rparr>, length (instructions f))
      | Some k \<Rightarrow>
         if k \<in> set (concat (blocks f))
         then Inr (f\<lparr>instructions := instructions f @ [i],
                     blocks := map (insert_before k (length (instructions f))) (blocks f)\<rparr>,
                   length (instructions f))
         else Inl Null_pointer)"

definition createGEP ::
  "Function \<Rightarrow> Value \<Rightarrow> Value list \<Rightarrow> nat option \<Rightarrow> failure + (Function \<times> nat)" where
  "createGEP f pointer idxs insertionPoint =
     (case getIndexedType (valueType f pointer) idxs of
        None \<Rightarrow> Inl Invalid_gep
      | Some t \<Rightarrow>
         createInst f \<lparr>getOpcode = GetElementPtr, getType = PointerTy t,
                       getOperands = pointer # idxs\<rparr> insertionPoint)"

definition replaceAllUsesWith :: "Value \<Rightarrow> Value \<Rightarrow> Function \<Rightarrow> Function" where
  "replaceAllUsesWith old new f =
     f\<lparr>instructions :=
         map (\<lambda>i. i\<lparr>getOperands := map (\<lambda>v. if v = old then new else v) (getOperands i)\<rparr>)
           (instructions f)\<rparr>"

subsection \<open>Pointer-path builder\<close>

text \<open>
  \<open>GepLink::toVector\<close>, before the final \<open>reverse\<close>: the link and its ancestors. The
  source follows \<open>parent\<close> until \<open>nullptr\<close>; the model stops after \<open>fuel\<close> links.
\<close>

fun toVector_up :: "nat \<Rightarrow> GepLink list \<Rightarrow> nat \<Rightarrow> nat list option" where
  "toVector_up 0 ls l = None"
| "toVector_up (Suc fuel) ls l =
     (case link_parent (ls ! l) of
        None \<Rightarrow> Some [l]
      | Some p \<Rightarrow> map_option (\<lambda>r. l # r) (toVector_up fuel ls p))"

definition toVector :: "LlvmStackFrame \<Rightarrow> nat \<Rightarrow> nat list option" where
  "toVector fr l = map_option rev (toVector_up (Suc (length (links fr))) (links fr) l)"

text \<open>One round of the loop of \<open>getPointerToObject\<close>; the state is the function, \<open>result\<close>
  and \<open>gepIndices\<close>.\<close>

definition pointerStep ::
  "LlvmStackFrame \<Rightarrow> nat option \<Rightarrow> nat \<Rightarrow> Function \<times> Value \<times> Value list
     \<Rightarrow> failure + (Function \<times> Value \<times> Value list)" where
  "pointerStep fr insertionPoint link st =
     (case st of (f, result, gepIndices) \<Rightarrow>
        (case link_index (links fr ! link) of
           None \<Rightarrow> Inl Null_pointer
         | Some (bits, v) \<Rightarrow>
            (let expected = link_expectedType (links fr ! link);
                 gepIndices' = gepIndices @ [ConstantInt bits v]
             in if expected \<noteq> getIndexedType (valueType f result) gepIndices' then
                  (case createGEP f result gepIndices' insertionPoint of
                     Inl e \<Rightarrow> Inl e
                   | Inr (f1, gep) \<Rightarrow>
                      (case expected of
                         None \<Rightarrow> Inl Null_pointer
                       | Some t \<Rightarrow>
                          (case createInst f1 \<lparr>getOpcode = BitCast, getType = PointerTy t,
                                                getOperands = [Instr gep]\<rparr> insertionPoint of
                             Inl e \<Rightarrow> Inl e
                           | Inr (f2, c) \<Rightarrow> Inr (f2, Instr c, [ConstantInt 64 0]))))
                else Inr (f, result, gepIndices'))))"

definition getPointerToObject ::
  "LlvmStackFrame \<Rightarrow> Function \<Rightarrow> objkey \<Rightarrow> Value \<Rightarrow> nat option
     \<Rightarrow> failure + (Function \<times> Value option)" where
  "getPointerToObject fr f object basePointer insertionPoint =
     (case map_of (linkMap fr) object of
        None \<Rightarrow> Inr (f, None)
      | Some l \<Rightarrow>
         (case toVector fr l of
            None \<Rightarrow> Inl Out_of_fuel
          | Some chain \<Rightarrow>
             (case foldE (pointerStep fr insertionPoint) chain (f, basePointer, []) of
                Inl e \<Rightarrow> Inl e
              | Inr (f1, result, gepIndices) \<Rightarrow>
                 if length gepIndices > 1 then
                   (case createGEP f1 result gepIndices insertionPoint of
                      Inl e \<Rightarrow> Inl e
                    | Inr (f2, gep) \<Rightarrow> Inr (f2, Some (Instr gep)))
                 else Inr (f1, Some result))))"

subsection \<open>Rewrite driver: \<open>IdentifyLocals\<close>\<close>

definition getStackPointer :: "Function \<Rightarrow> failure + Value option" where
  "getStackPointer fn =
     (case stackPointerArgument fn of
        None \<Rightarrow> Inr None
      | Some i \<Rightarrow> if i < length (arguments fn) then Inr (Some (Argument i))
                  else Inl Bad_argument_index)"

text \<open>\<open>fn.getEntryBlock().getFirstInsertionPt()\<close>: the first instruction of the entry
  block that is not a phi.\<close>

definition getFirstInsertionPt :: "Function \<Rightarrow> nat option" where
  "getFirstInsertionPt fn =
     (case blocks fn of
        [] \<Rightarrow> None
      | entry # _ \<Rightarrow> find (\<lambda>k. getOpcode (getInst fn k) \<noteq> PHI) entry)"

text \<open>
  Modelled from the spec: \<open>md::setStackFrame\<close> (metadata.h, not among the sources)
  attaches the marker tag "stack frame" to the instruction.
\<close>

definition setStackFrame :: "nat \<Rightarrow> Function \<Rightarrow> Function" where
  "setStackFrame k fn = fn\<lparr>stackFrameTags := stackFrameTags fn @ [k]\<rparr>"

text \<open>
  The three nested conditions of \<open>runOnFunction\<close>: the stack pointer, the abstract
  stack read from it, and the frame laid out for it. \<open>cast<StructureStackObject>\<close>
  asserts that the root is a structure.
\<close>

definition recoverFrame :: "nat \<Rightarrow> DataLayout \<Rightarrow> Function \<Rightarrow> failure + LlvmStackFrame option" where
  "recoverFrame fuel dl fn =
     (case getStackPointer fn of
        Inl e \<Rightarrow> Inl e
      | Inr None \<Rightarrow> Inr None
      | Inr (Some stackPointer) \<Rightarrow>
         (case readObject fuel fn stackPointer of
            Inl e \<Rightarrow> Inl e
          | Inr None \<Rightarrow> Inr None
          | Inr (Some root) \<Rightarrow>
             (case root of
                Object v \<Rightarrow> Inl Assert_cast_Structure
              | Structure members \<Rightarrow> representRoot fuel dl fn root)))"

text \<open>The body of the loop over \<open>getAllObjects()\<close>.\<close>

definition rewriteObject ::
  "LlvmStackFrame \<Rightarrow> nat \<Rightarrow> objkey \<times> Value \<Rightarrow> Function \<Rightarrow> failure + Function" where
  "rewriteObject llvmFrame stackFrame obj fn =
     (case obj of (object, offsetInstruction) \<Rightarrow>
        (let insertionPoint = (case offsetInstruction of Instr k \<Rightarrow> Some k | _ \<Rightarrow> None) in
         case getPointerToObject llvmFrame fn object (Instr stackFrame) insertionPoint of
           Inl e \<Rightarrow> Inl e
         | Inr (fn1, None) \<Rightarrow> Inl Null_pointer
         | Inr (fn1, Some pointer) \<Rightarrow>
            (case createInst fn1 \<lparr>getOpcode = PtrToInt,
                                   getType = valueType fn1 offsetInstruction,
                                   getOperands = [pointer]\<rparr> insertionPoint of
               Inl e \<Rightarrow> Inl e
             | Inr (fn2, ptr2int) \<Rightarrow>
                Inr (replaceAllUsesWith offsetInstruction (Instr ptr2int) fn2))))"

text \<open>\<open>runOnFunction\<close> returns whether the function was changed, and the function.\<close>

definition runOnFunction :: "nat \<Rightarrow> DataLayout \<Rightarrow> Function \<Rightarrow> failure + (bool \<times> Function)" where
  "runOnFunction fuel dl fn =
     (case recoverFrame fuel dl fn of
        Inl e \<Rightarrow> Inl e
      | Inr None \<Rightarrow> Inr (False, fn)
      | Inr (Some llvmFrame) \<Rightarrow>
         (case getFirstInsertionPt fn of
            None \<Rightarrow> Inl No_insertion_point
          | Some allocaInsert \<Rightarrow>
             (case getNaiveType llvmFrame [] of
                None \<Rightarrow> Inl Null_pointer
              | Some naiveType \<Rightarrow>
                 (case createInst fn \<lparr>getOpcode = Alloca, getType = PointerTy naiveType,
                                      getOperands = []\<rparr> (Some allocaInsert) of
                    Inl e \<Rightarrow> Inl e
                  | Inr (fn1, stackFrame) \<Rightarrow>
                     (case foldE (rewriteObject llvmFrame stackFrame) (allObjects llvmFrame)
                             (setStackFrame stackFrame fn1) of
                        Inl e \<Rightarrow> Inl e
                      | Inr fn2 \<Rightarrow> Inr (True, fn2))))))"

subsection \<open>The specification's wording, for comparison\<close>



text \<open>
  Following the spec's words (4.1, 7): the instruction kinds on the classifier's
  allow-list: a binary add, a cast, and the noted store, call and phi users.
\<close>

definition spec_allow_list :: "opcode \<Rightarrow> bool" where
  "spec_allow_list opc = (opc = Add \<or> isCastInst opc \<or> opc = Store \<or> opc = Call \<or> opc = PHI)"

text \<open>
  The users at which \<open>analyzeObject\<close> returns \<open>false\<close>: a binary operator that is not an
  add, or an add whose other operand is not a \<open>ConstantInt\<close>.
\<close>

definition fails_classifier :: "Function \<Rightarrow> Value \<Rightarrow> nat \<Rightarrow> bool" where
  "fails_classifier f base user =
     (let binOp = getInst f user in
      isBinaryOperator (getOpcode binOp)
      \<and> (if getOpcode binOp = Add
         then (case getOperand binOp (if getOperand binOp 0 = base then 1 else 0) of
                 ConstantInt bits v \<Rightarrow> False
               | _ \<Rightarrow> True)
         else True))"

subsection \<open>Notions for the properties of the rewrite\<close>

text \<open>
  The values that exist before the pass emits anything, when the function has \<open>n\<close>
  instructions: the arguments and the instructions below \<open>n\<close>.
\<close>

fun old_value :: "nat \<Rightarrow> Value \<Rightarrow> bool" where
  "old_value n (Argument i) = True"
| "old_value n (Instr k) = (k < n)"
| "old_value n (ConstantInt bits v) = False"

text \<open>
  \<open>f'\<close> has the instructions of \<open>f\<close> and, after them, instructions whose operands are
  constants or instructions from \<open>n\<close> on.
\<close>

definition extends :: "nat \<Rightarrow> Function \<Rightarrow> Function \<Rightarrow> bool" where
  "extends n f f' =
     (\<exists>new. instructions f' = instructions f @ new
        \<and> (\<forall>i \<in> set new. \<forall>v \<in> set (getOperands i). \<not> old_value n v))"

text \<open>The offset values of the leaves of a stack object.\<close>

fun leaves :: "StackObject \<Rightarrow> Value list" where
  "leaves (Object v) = [v]"
| "leaves (Structure members) = concat (map (\<lambda>m. leaves (snd m)) members)"

text \<open>
  The test of \<open>analyzeObject\<close> under which \<open>user\<close> is inserted into \<open>constantOffsets\<close>
  with the key \<open>c\<close>: a binary add whose other operand is a constant integer of that value.
\<close>

definition adds_constant :: "Function \<Rightarrow> Value \<Rightarrow> int \<Rightarrow> nat \<Rightarrow> bool" where
  "adds_constant f base c user =
     (let binOp = getInst f user in
      isBinaryOperator (getOpcode binOp) \<and> getOpcode binOp = Add
      \<and> (case getOperand binOp (if getOperand binOp 0 = base then 1 else 0) of
           ConstantInt bits v \<Rightarrow> to_int64 (getLimitedValue v) = c
         | _ \<Rightarrow> False))"

text \<open>The values \<open>readObject\<close> is called on: arguments and instructions.\<close>

fun non_constant :: "Value \<Rightarrow> bool" where
  "non_constant (ConstantInt bits v) = False"
| "non_constant v = True"

text \<open>
  Instruction \<open>k\<close> is the entry of some key in the \<open>constantOffsets\<close> of some base.
\<close>

definition recorded :: "Function \<Rightarrow> nat \<Rightarrow> bool" where
  "recorded f k =
     (\<exists>b c hc co vo. non_constant b \<and> analyzeObject f b = Some (hc, co, vo) \<and> map_of co c = Some k)"

subsection \<open>The end-to-end scenarios\<close>

text \<open>
  A function with one argument, the stack pointer, of type \<open>i64\<close>, and the given
  instructions in one block.
\<close>

definition scenario :: "Instruction list \<Rightarrow> Function" where
  "scenario is =
     \<lparr>arguments = [IntegerTy 64], instructions = is, blocks = [[0..<length is]],
      stackPointerArgument = Some 0, stackFrameTags = []\<rparr>"

definition inst :: "opcode \<Rightarrow> ty \<Rightarrow> Value list \<Rightarrow> Instruction" where
  "inst opc t ops = \<lparr>getOpcode = opc, getType = t, getOperands = ops\<rparr>"

text \<open>S1: the stack pointer has no uses.\<close>

definition S1 :: Function where
  "S1 = scenario [inst Ret VoidTy []]"

text \<open>S2: \<open>p1 = sp + 0\<close>, cast to a pointer, stored an \<open>i32\<close>.\<close>

definition S2 :: Function where
  "S2 = scenario
     [inst Add (IntegerTy 64) [Argument 0, ConstantInt 64 0],
      inst IntToPtr (PointerTy (IntegerTy 32)) [Instr 0],
      inst Store VoidTy [ConstantInt 32 7, Instr 1],
      inst Ret VoidTy []]"

text \<open>S4: \<open>sp + 0\<close> loaded as \<open>i32\<close>, \<open>sp + 2\<close> stored an \<open>i16\<close>.\<close>

definition S4 :: Function where
  "S4 = scenario
     [inst Add (IntegerTy 64) [Argument 0, ConstantInt 64 0],
      inst IntToPtr (PointerTy (IntegerTy 32)) [Instr 0],
      inst Load (IntegerTy 32) [Instr 1],
      inst Add (IntegerTy 64) [Argument 0, ConstantInt 64 2],
      inst IntToPtr (PointerTy (IntegerTy 16)) [Instr 3],
      inst Store VoidTy [ConstantInt 16 1, Instr 4],
      inst Ret VoidTy []]"

text \<open>S2 with a comparison of the stack pointer added.\<close>

definition compared :: Function where
  "compared = scenario
     [inst Add (IntegerTy 64) [Argument 0, ConstantInt 64 0],
      inst IntToPtr (PointerTy (IntegerTy 32)) [Instr 0],
      inst Store VoidTy [ConstantInt 32 7, Instr 1],
      inst ICmp (IntegerTy 1) [Argument 0, ConstantInt 64 0],
      inst Ret VoidTy []]"

text \<open>S2 with the add replaced by a subtraction.\<close>

definition subtracted :: Function where
  "subtracted = scenario
     [inst Sub (IntegerTy 64) [Argument 0, ConstantInt 64 8],
      inst IntToPtr (PointerTy (IntegerTy 32)) [Instr 0],
      inst Store VoidTy [ConstantInt 32 7, Instr 1],
      inst Ret VoidTy []]"

text \<open>The function that the pass makes of S2.\<close>

definition S2_rewritten :: Function where
  "S2_rewritten =
     \<lparr>arguments = [IntegerTy 64],
      instructions =
        [inst Add (IntegerTy 64) [Argument 0, ConstantInt 64 0],
         inst IntToPtr (PointerTy (IntegerTy 32)) [Instr 6],
         inst Store VoidTy [ConstantInt 32 7, Instr 1],
         inst Ret VoidTy [],
         inst Alloca (PointerTy (StructTy [IntegerTy 32] True)) [],
         inst GetElementPtr (PointerTy (IntegerTy 32))
           [Instr 4, ConstantInt 64 0, ConstantInt 32 0],
         inst PtrToInt (IntegerTy 64) [Instr 5]],
      blocks = [[4, 5, 6, 0, 1, 2, 3]],
      stackPointerArgument = Some 0,
      stackFrameTags = [4]\<rparr>"

text \<open>
  The stack pointer is itself cast to a pointer and loaded from, and \<open>sp + 8\<close> is stored
  to: the root gets the implicit leaf of the stack pointer.
\<close>

definition implicit_leaf :: Function where
  "implicit_leaf = scenario
     [inst IntToPtr (PointerTy (IntegerTy 32)) [Argument 0],
      inst Load (IntegerTy 32) [Instr 0],
      inst Add (IntegerTy 64) [Argument 0, ConstantInt 64 8],
      inst IntToPtr (PointerTy (IntegerTy 64)) [Instr 2],
      inst Store VoidTy [ConstantInt 64 1, Instr 3],
      inst Ret VoidTy []]"

text \<open>The function that the pass makes of \<open>implicit_leaf\<close>.\<close>

definition implicit_leaf_rewritten :: Function where
  "implicit_leaf_rewritten =
     \<lparr>arguments = [IntegerTy 64],
      instructions =
        [inst IntToPtr (PointerTy (IntegerTy 32)) [Instr 9],
         inst Load (IntegerTy 32) [Instr 0],
         inst Add (IntegerTy 64) [Instr 9, ConstantInt 64 8],
         inst IntToPtr (PointerTy (IntegerTy 64)) [Instr 11],
         inst Store VoidTy [ConstantInt 64 1, Instr 3],
         inst Ret VoidTy [],
         inst Alloca (PointerTy (StructTy [IntegerTy 64] True)) [],
         inst GetElementPtr (PointerTy (IntegerTy 64))
           [Instr 6, ConstantInt 64 0, ConstantInt 32 0],
         inst BitCast (PointerTy (IntegerTy 32)) [Instr 7],
         inst PtrToInt (IntegerTy 64) [Instr 8],
         inst GetElementPtr (PointerTy (IntegerTy 64))
           [Instr 6, ConstantInt 64 0, ConstantInt 32 0],
         inst PtrToInt (IntegerTy 64) [Instr 10]],
      blocks = [[6, 0, 1, 10, 11, 2, 3, 4, 5]],
      stackPointerArgument = Some 0,
      stackFrameTags = [6]\<rparr>"

text \<open>
  Two adds of the same constant to the stack pointer: \<open>sp + 0\<close> stored to through
  instruction 0, \<open>sp + 0\<close> loaded from through instruction 3.
\<close>

definition two_adds :: Function where
  "two_adds = scenario
     [inst Add (IntegerTy 64) [Argument 0, ConstantInt 64 0],
      inst IntToPtr (PointerTy (IntegerTy 32)) [Instr 0],
      inst Store VoidTy [ConstantInt 32 7, Instr 1],
      inst Add (IntegerTy 64) [Argument 0, ConstantInt 64 0],
      inst IntToPtr (PointerTy (IntegerTy 32)) [Instr 3],
      inst Load (IntegerTy 32) [Instr 4],
      inst Ret VoidTy []]"

text \<open>The function that the pass makes of \<open>two_adds\<close>.\<close>

definition two_adds_rewritten :: Function where
  "two_adds_rewritten =
     \<lparr>arguments = [IntegerTy 64],
      instructions =
        [inst Add (IntegerTy 64) [Argument 0, ConstantInt 64 0],
         inst IntToPtr (PointerTy (IntegerTy 32)) [Instr 0],
         inst Store VoidTy [ConstantInt 32 7, Instr 1],
         inst Add (IntegerTy 64) [Argument 0, ConstantInt 64 0],
         inst IntToPtr (PointerTy (IntegerTy 32)) [Instr 9],
         inst Load (IntegerTy 32) [Instr 4],
         inst Ret VoidTy [],
         inst Alloca (PointerTy (StructTy [IntegerTy 32] True)) [],
         inst GetElementPtr (PointerTy (IntegerTy 32))
           [Instr 7, ConstantInt 64 0, ConstantInt 32 0],
         inst PtrToInt (IntegerTy 64) [Instr 8]],
      blocks = [[7, 0, 1, 2, 8, 9, 3, 4, 5, 6]],
      stackPointerArgument = Some 0,
      stackFrameTags = [7]\<rparr>"

text \<open>The frames laid out for S2 and for \<open>two_adds\<close>: one leaf of type \<open>i32\<close>.\<close>

definition one_leaf_frame :: "Value \<Rightarrow> LlvmStackFrame" where
  "one_leaf_frame v =
     \<lparr>links =
        [\<lparr>link_parent = None, link_index = Some (64, 0),
          link_expectedType = Some (StructTy [IntegerTy 32] True)\<rparr>,
         \<lparr>link_parent = Some 0, link_index = Some (32, 0),
          link_expectedType = Some (IntegerTy 32)\<rparr>],
      linkMap = [([], 0), ([0], 1)],
      typeMap = [([0], IntegerTy 32), ([], StructTy [IntegerTy 32] True)],
      allObjects = [([0], v)]\<rparr>"


section \<open>Properties\<close>

declare pad_loop.simps [simp del]

subsection \<open>Padding\<close>

lemma pad_loop_sum_small: "r < 16 \<Longrightarrow> sum_list (map dl64 (pad_loop 8 r)) = r"
proof -
  assume "r < 16"
  then have "r \<in> set [0..<16]" by simp
  then show ?thesis
    by (simp add: upt_rec pad_loop.simps) (elim disjE; simp add: pad_loop.simps)
qed

lemma pad_loop_descending:
  "pad_loop 8 r \<in> set (subseqs [IntegerTy 64, IntegerTy 32, IntegerTy 16, IntegerTy 8])"
  by (simp add: pad_loop.simps)

text \<open>
  Every gap but 16 is filled exactly: an \<open>int64\<close> array for a gap above 16, then integer
  fields of 8, 4, 2, 1 bytes, each at most once, in this order.
\<close>

lemma pad_shape:
  "\<exists>ints. pad d = (if d > 16 then [ArrayTy (IntegerTy 64) (d div 8)] else []) @ ints
     \<and> ints \<in> set (subseqs [IntegerTy 64, IntegerTy 32, IntegerTy 16, IntegerTy 8])"
  using pad_loop_descending by (simp add: pad_def)

lemma pad_sum_exact:
  assumes "d \<noteq> 16"
  shows "sum_list (map dl64 (pad d)) = d"
proof (cases "d > 16")
  case True
  have "d - d div 8 * 8 = d mod 8"
    by (simp add: minus_div_mult_eq_mod)
  moreover have "d mod 8 < 16" by (rule less_trans [of _ 8]) simp_all
  ultimately have "sum_list (map dl64 (pad_loop 8 (d - d div 8 * 8))) = d mod 8"
    using pad_loop_sum_small by simp
  with True show ?thesis by (simp add: pad_def roundUp_def)
next
  case False
  with assms have "d < 16" by simp
  with False show ?thesis by (simp add: pad_def pad_loop_sum_small)
qed

text \<open>
  C4: for every byte gap \<open>d > 0\<close> the padding is at most one \<open>int64[d/8]\<close> array (for
  \<open>d > 16\<close>) and then integer fields of 8, 4, 2, 1 bytes, and its store sizes sum to
  \<open>d\<close>. The gap of 16 bytes is not above 16, so it gets no array, and the four integer
  fields hold 15 bytes: the padding is one byte short.
\<close>

theorem pad_16_is_15_bytes:
  "pad 16 = [IntegerTy 64, IntegerTy 32, IntegerTy 16, IntegerTy 8]
   \<and> sum_list (map dl64 (pad 16)) = 15"
  by (simp add: pad_def pad_loop.simps)

text \<open>
  The type synthesizer pads such a gap: in the window of a 32-byte access at offset 0 and
  an \<open>i64\<close> access at offset 16 the front gap is 16 bytes, and the struct that results
  holds 15 + 8 + 8 = 31 bytes for the 32 bytes of the window.
\<close>

lemma reduce_gap_16:
  "reduce dl64 [\<lparr>ta_offset = 0, ta_object = [0::nat], ta_type = ArrayTy (IntegerTy 8) 32\<rparr>,
                \<lparr>ta_offset = 16, ta_object = [1], ta_type = IntegerTy 64\<rparr>]
     = Inr (2, StructTy [IntegerTy 8, IntegerTy 16, IntegerTy 32, IntegerTy 64,
                         IntegerTy 64, IntegerTy 64] True,
            [([1], 5), ([0], 0)])"
  by code_simp

subsection \<open>Overlap windows\<close>



subsection \<open>Reduction of the window of scenario S4\<close>


text \<open>
  The function of S4 run through the analysis: the leaves \<open>sp + 0\<close> and \<open>sp + 2\<close> are the
  fields 0 and 1 of the root; their window is field 0 of the root type, and their links
  carry the indices 0 and 1 into it.
\<close>

lemma S4_frame:
  "recoverFrame 10 dl64 S4 = Inr (Some
     \<lparr>links =
        [\<lparr>link_parent = None, link_index = Some (64, 0),
          link_expectedType = Some (StructTy [StructTy [IntegerTy 16, IntegerTy 16] True] True)\<rparr>,
         \<lparr>link_parent = Some 0, link_index = Some (32, 0),
          link_expectedType = Some (StructTy [IntegerTy 16, IntegerTy 16] True)\<rparr>,
         \<lparr>link_parent = Some 1, link_index = Some (32, 0),
          link_expectedType = Some (IntegerTy 32)\<rparr>,
         \<lparr>link_parent = Some 1, link_index = Some (32, 1),
          link_expectedType = Some (IntegerTy 16)\<rparr>],
      linkMap = [([], 0), ([0], 2), ([1], 3)],
      typeMap = [([0], IntegerTy 32), ([1], IntegerTy 16),
                 ([], StructTy [StructTy [IntegerTy 16, IntegerTy 16] True] True)],
      allObjects = [([0], Instr 0), ([1], Instr 3)]\<rparr>)"
  by code_simp




subsection \<open>A stack pointer without uses\<close>

text \<open>
  Whenever the stack pointer has no uses, \<open>readObject\<close> makes a leaf of it, and the cast
  of the root to a structure fails.
\<close>

lemma unused_stack_pointer:
  assumes "stackPointerArgument fn = Some i" and "i < length (arguments fn)"
    and "users fn (Argument i) = []"
  shows "readObject (Suc fuel) fn (Argument i) = Inr (Some (Object (Argument i)))"
    and "runOnFunction (Suc fuel) dl fn = Inl Assert_cast_Structure"
  using assms
  by (simp_all add: runOnFunction_def recoverFrame_def getStackPointer_def analyzeObject_def)

text \<open>
  C2: for a function whose stack pointer has no uses the pass returns \<open>no change\<close> and
  treats the root as a structure. On S1 \<open>readObject\<close> returns a leaf for the stack
  pointer, and the \<open>cast<StructureStackObject>\<close> of \<open>runOnFunction\<close> fails on it.
\<close>

theorem S1_root_is_leaf:
  "readObject 10 S1 (Argument 0) = Inr (Some (Object (Argument 0)))
   \<and> runOnFunction 10 dl64 S1 = Inl Assert_cast_Structure"
  by code_simp

subsection \<open>Offset classifier\<close>

lemma analyzeObject_loop_None:
  "(analyzeObject_loop f base us st = None) = (\<exists>u \<in> set us. fails_classifier f base u)"
proof (induction us arbitrary: st)
  case Nil
  then show ?case by simp
next
  case (Cons u us)
  obtain hc co vo where st: "st = (hc, co, vo)" by (cases st) auto
  show ?case unfolding st
    by (auto simp: Cons.IH fails_classifier_def Let_def split: Value.splits)
qed

text \<open>
  C3 as stated: a user outside the allow-list, such as a comparison, fails the
  classifier. In \<open>compared\<close> the stack pointer is used by a comparison; the classifier
  succeeds, and the object is read.
\<close>

theorem comparison_user_counterexample:
  "users compared (Argument 0) = [3, 0]
   \<and> \<not> spec_allow_list (getOpcode (getInst compared 3))
   \<and> analyzeObject compared (Argument 0) = Some (False, [(0, 0)], [])
   \<and> readObject 10 compared (Argument 0) = Inr (Some (Structure [(0, Object (Instr 0))]))"
  by code_simp

text \<open>
  C3, amended: the offset classifier fails exactly when some user of the base is a
  binary operator other than an add, or an add whose other operand is not a constant
  integer; then no object is read for the base. A user of any other kind is passed over
  and does not fail the classifier.
\<close>

theorem analyzeObject_fails_iff:
  "(analyzeObject f base = None) = (\<exists>user \<in> set (users f base). fails_classifier f base user)
   \<and> ((\<exists>user \<in> set (users f base). fails_classifier f base user)
        \<longrightarrow> readObject (Suc fuel) f base = Inr None)"
proof -
  have iff: "(analyzeObject f base = None)
      = (\<exists>user \<in> set (users f base). fails_classifier f base user)"
    by (simp add: analyzeObject_def analyzeObject_loop_None)
  moreover have "readObject (Suc fuel) f base = Inr None" if "analyzeObject f base = None"
    using that by simp
  ultimately show ?thesis by blast
qed

theorem analyzeObject_fails_iff_witness:
  "analyzeObject subtracted (Argument 0) = None
   \<and> readObject 10 subtracted (Argument 0) = Inr None"
proof -
  have "\<exists>user \<in> set (users subtracted (Argument 0)). fails_classifier subtracted (Argument 0) user"
    by code_simp
  then show ?thesis
    using analyzeObject_fails_iff [of subtracted "Argument 0" 9] by (simp add: eval_nat_numeral)
qed

subsection \<open>The rewrite on the scenarios\<close>

lemma S2_run: "runOnFunction 10 dl64 S2 = Inr (True, S2_rewritten)"
  by code_simp

lemma implicit_leaf_run:
  "runOnFunction 10 dl64 implicit_leaf = Inr (True, implicit_leaf_rewritten)"
  by code_simp

text \<open>
  C6: for a leaf whose offset value is not an instruction, the pointer path and the
  pointer-to-integer cast are inserted before the allocation in the entry block. In
  \<open>implicit_leaf\<close> the leaf of the stack pointer has no instruction to insert before;
  \<open>dyn_cast<Instruction>\<close> gives \<open>nullptr\<close>, and the instructions 7, 8 and 9 emitted for
  it are created without an insertion point: they are in no block, and the cast (9) has
  replaced the stack pointer in the instructions 0 and 2.
\<close>

theorem implicit_leaf_cast_in_no_block:
  "runOnFunction 10 dl64 implicit_leaf = Inr (True, implicit_leaf_rewritten)
   \<and> getInst implicit_leaf_rewritten 9 = inst PtrToInt (IntegerTy 64) [Instr 8]
   \<and> 7 \<notin> set (concat (blocks implicit_leaf_rewritten))
   \<and> 8 \<notin> set (concat (blocks implicit_leaf_rewritten))
   \<and> 9 \<notin> set (concat (blocks implicit_leaf_rewritten))
   \<and> users implicit_leaf_rewritten (Instr 9) = [2, 0]"
  by code_simp

text \<open>
  C7: a second run on a function that the pass has processed changes nothing and
  returns \<open>no change\<close>. The second run on the result of S2 finds the leaf \<open>sp + 0\<close>
  again, now without users and so without witnessed types, and reduces an empty window;
  \<open>reduce\<close> asserts that this does not happen. On the result of \<open>implicit_leaf\<close> the
  stack pointer has no uses left, and the second run fails as on S1.
\<close>

theorem second_run_reduces_empty_window:
  "runOnFunction 10 dl64 S2 = Inr (True, S2_rewritten)
   \<and> stackFrameTags S2_rewritten = [4]
   \<and> readObject 10 S2_rewritten (Argument 0) = Inr (Some (Structure [(0, Object (Instr 0))]))
   \<and> getUnionTypes 10 S2_rewritten (Instr 0) [] = Inr []
   \<and> runOnFunction 10 dl64 S2_rewritten = Inl Assert_reduce_empty
   \<and> runOnFunction 10 dl64 implicit_leaf_rewritten = Inl Assert_cast_Structure"
  by code_simp

subsection \<open>Use lists\<close>

lemma users_empty_iff:
  "(users f v = []) = (\<forall>k < length (instructions f). v \<notin> set (getOperands (instructions f ! k)))"
  by (auto simp: users_def getInst_def count_list_0_iff)

lemma users_mem: "k \<in> set (users f v) \<Longrightarrow> k < length (instructions f) \<and> v \<in> set (getOperands (instructions f ! k))"
  by (auto simp: users_def getInst_def count_list_0_iff)

lemma users_eq:
  assumes len: "length (instructions f) \<le> length (instructions f')"
    and same: "\<And>k. k < length (instructions f) \<Longrightarrow>
        count_list (getOperands (instructions f' ! k)) v = count_list (getOperands (instructions f ! k)) v"
    and new: "\<And>k. length (instructions f) \<le> k \<Longrightarrow> k < length (instructions f') \<Longrightarrow>
        v \<notin> set (getOperands (instructions f' ! k))"
  shows "users f' v = users f v"
proof -
  let ?n = "length (instructions f)" and ?n' = "length (instructions f')"
  let ?g = "\<lambda>h k. replicate (count_list (getOperands (instructions h ! k)) v) k"
  have split: "[0..<?n'] = [0..<?n] @ [?n..<?n']"
    using len by (metis le_Suc_ex upt_add_eq_append zero_le)
  have a: "concat (map (?g f') (rev [?n..<?n'])) = []"
    using new by (auto simp: count_list_0_iff)
  have b: "map (?g f') (rev [0..<?n]) = map (?g f) (rev [0..<?n])"
    using same by simp
  have "users f' v = concat (map (?g f') (rev [?n..<?n'])) @ concat (map (?g f') (rev [0..<?n]))"
    by (simp add: users_def getInst_def split)
  also have "\<dots> = concat (map (?g f) (rev [0..<?n]))"
    unfolding a b by simp
  finally show ?thesis
    by (simp add: users_def getInst_def)
qed

subsection \<open>What the emitted instructions use\<close>

lemma extends_refl: "extends n f f"
  by (simp add: extends_def)

lemma extends_trans: "extends n f g \<Longrightarrow> extends n g h \<Longrightarrow> extends n f h"
  by (auto simp: extends_def)

lemma extends_length: "extends n f f' \<Longrightarrow> length (instructions f) \<le> length (instructions f')"
  by (auto simp: extends_def)

lemma extends_users:
  assumes "extends n f f'" and "old_value n v"
  shows "users f' v = users f v"
proof -
  from assms(1) obtain new where new: "instructions f' = instructions f @ new"
    and fresh: "\<forall>i \<in> set new. \<forall>v \<in> set (getOperands i). \<not> old_value n v"
    by (auto simp: extends_def)
  show ?thesis
  proof (rule users_eq)
    show "length (instructions f) \<le> length (instructions f')" by (simp add: new)
  next
    fix k assume "k < length (instructions f)"
    then show "count_list (getOperands (instructions f' ! k)) v
        = count_list (getOperands (instructions f ! k)) v"
      by (simp add: new nth_append)
  next
    fix k assume "length (instructions f) \<le> k" and "k < length (instructions f')"
    then have "instructions f' ! k \<in> set new"
      by (simp add: new nth_append)
    with fresh assms(2) show "v \<notin> set (getOperands (instructions f' ! k))" by blast
  qed
qed

lemma createInst_extends:
  assumes "createInst f i ip = Inr (f', k)" and "\<forall>v \<in> set (getOperands i). \<not> old_value n v"
  shows "extends n f f' \<and> k = length (instructions f)"
  using assms by (auto simp: createInst_def extends_def split: option.splits if_splits)

lemma createGEP_extends:
  assumes "createGEP f p idxs ip = Inr (f', k)" and "\<not> old_value n p"
    and "\<forall>v \<in> set idxs. \<not> old_value n v"
  shows "extends n f f' \<and> k = length (instructions f)"
  using assms by (auto simp: createGEP_def split: option.splits dest!: createInst_extends [where n = n])

lemma pointerStep_extends:
  assumes "pointerStep fr ip link (f, r, g) = Inr (f', r', g')"
    and "n \<le> length (instructions f)" and "\<not> old_value n r" and "\<forall>v \<in> set g. \<not> old_value n v"
  shows "extends n f f' \<and> \<not> old_value n r' \<and> (\<forall>v \<in> set g'. \<not> old_value n v)"
proof (cases "link_index (links fr ! link)")
  case None
  with assms(1) show ?thesis by (simp add: pointerStep_def)
next
  case (Some idx)
  obtain bits v where idx: "idx = (bits, v)" by (cases idx)
  let ?g = "g @ [ConstantInt bits v]"
  have g': "\<forall>v \<in> set ?g. \<not> old_value n v" using assms(4) by simp
  show ?thesis
  proof (cases "link_expectedType (links fr ! link) \<noteq> getIndexedType (valueType f r) ?g")
    case False
    with assms(1) Some idx have "f' = f" "r' = r" "g' = ?g"
      by (auto simp: pointerStep_def Let_def)
    with assms(3) g' show ?thesis by (simp add: extends_refl)
  next
    case True
    with assms(1) Some idx obtain f1 gep t c where
      gep: "createGEP f r ?g ip = Inr (f1, gep)"
      and cast: "createInst f1 \<lparr>getOpcode = BitCast, getType = PointerTy t,
                                 getOperands = [Instr gep]\<rparr> ip = Inr (f', c)"
      and res: "r' = Instr c" "g' = [ConstantInt 64 0]"
      by (auto simp: pointerStep_def Let_def split: sum.splits option.splits)
    from createGEP_extends [OF gep assms(3) g']
    have e1: "extends n f f1" and gk: "gep = length (instructions f)" by auto
    with assms(2) have "\<forall>v \<in> set [Instr gep]. \<not> old_value n v" by simp
    from createInst_extends [OF cast] this
    have e2: "extends n f1 f'" and ck: "c = length (instructions f1)" by auto
    from extends_length [OF e1] assms(2) ck have "n \<le> c" by simp
    with e1 e2 res show ?thesis by (auto intro: extends_trans)
  qed
qed

lemma pointer_loop_extends:
  assumes "foldE (pointerStep fr ip) chain (f, r, g) = Inr (f', r', g')"
    and "n \<le> length (instructions f)" and "\<not> old_value n r" and "\<forall>v \<in> set g. \<not> old_value n v"
  shows "extends n f f' \<and> \<not> old_value n r' \<and> (\<forall>v \<in> set g'. \<not> old_value n v)"
  using assms
proof (induction chain arbitrary: f r g)
  case Nil
  then show ?case by (simp add: extends_refl)
next
  case (Cons link chain)
  from Cons.prems(1) obtain f1 r1 g1 where
    step: "pointerStep fr ip link (f, r, g) = Inr (f1, r1, g1)"
    and rest: "foldE (pointerStep fr ip) chain (f1, r1, g1) = Inr (f', r', g')"
    by (auto split: sum.splits)
  from pointerStep_extends [OF step Cons.prems(2,3,4)]
  have e: "extends n f f1" and r1: "\<not> old_value n r1" and g1: "\<forall>v \<in> set g1. \<not> old_value n v"
    by auto
  from extends_length [OF e] Cons.prems(2) have "n \<le> length (instructions f1)" by simp
  from Cons.IH [OF rest this r1 g1] e show ?case by (auto intro: extends_trans)
qed

lemma getPointerToObject_extends:
  assumes "getPointerToObject fr f object bp ip = Inr (f', Some p)"
    and "n \<le> length (instructions f)" and "\<not> old_value n bp"
  shows "extends n f f' \<and> \<not> old_value n p"
proof -
  from assms(1) obtain l chain f1 r g where
    loop: "foldE (pointerStep fr ip) chain (f, bp, []) = Inr (f1, r, g)"
    and fin: "(if length g > 1
               then (case createGEP f1 r g ip of Inl e \<Rightarrow> Inl e
                     | Inr (f2, gep) \<Rightarrow> Inr (f2, Some (Instr gep)))
               else Inr (f1, Some r)) = Inr (f', Some p)"
    by (auto simp: getPointerToObject_def split: option.splits sum.splits)
  from pointer_loop_extends [OF loop assms(2,3)]
  have e: "extends n f f1" and r: "\<not> old_value n r" and g: "\<forall>v \<in> set g. \<not> old_value n v"
    by auto
  show ?thesis
  proof (cases "length g > 1")
    case False
    with fin e r show ?thesis by simp
  next
    case True
    with fin obtain gep where gep: "createGEP f1 r g ip = Inr (f', gep)" and p: "p = Instr gep"
      by (auto split: sum.splits)
    from createGEP_extends [OF gep r g]
    have e2: "extends n f1 f'" and "gep = length (instructions f1)" by auto
    with extends_length [OF e] assms(2) p have "\<not> old_value n p" by simp
    with e e2 show ?thesis by (auto intro: extends_trans)
  qed
qed

subsection \<open>Replacing the uses of a leaf\<close>

lemma replaceAllUsesWith_users:
  assumes "old_value n v" and "\<not> old_value n new"
  shows "users (replaceAllUsesWith off new f) v = (if v = off then [] else users f v)"
proof (cases "v = off")
  case True
  with assms have "off \<noteq> new" by auto
  then have "users (replaceAllUsesWith off new f) off = []"
    by (auto simp: users_empty_iff replaceAllUsesWith_def)
  with True show ?thesis by simp
next
  case False
  from assms have vn: "v \<noteq> new" by auto
  have "count_list (map (\<lambda>x. if x = off then new else x) ops) v = count_list ops v" for ops
    using False vn by (induction ops) auto
  then have "users (replaceAllUsesWith off new f) v = users f v"
    by (intro users_eq) (simp_all add: replaceAllUsesWith_def)
  with False show ?thesis by simp
qed

lemma replaceAllUsesWith_length:
  "length (instructions (replaceAllUsesWith off new f)) = length (instructions f)"
  by (simp add: replaceAllUsesWith_def)

lemma rewriteObject_users:
  assumes "rewriteObject fr sf (object, off) f = Inr f'"
    and "n \<le> length (instructions f)" and "n \<le> sf" and "old_value n v"
  shows "users f' v = (if v = off then [] else users f v)
         \<and> length (instructions f) \<le> length (instructions f')"
proof -
  let ?ip = "case off of Instr k \<Rightarrow> Some k | _ \<Rightarrow> None"
  from assms(1) obtain f1 p f2 c where
    ptr: "getPointerToObject fr f object (Instr sf) ?ip = Inr (f1, Some p)"
    and cast: "createInst f1 \<lparr>getOpcode = PtrToInt, getType = valueType f1 off,
                               getOperands = [p]\<rparr> ?ip = Inr (f2, c)"
    and f': "f' = replaceAllUsesWith off (Instr c) f2"
    by (auto simp: rewriteObject_def Let_def split: sum.splits option.splits)
  from assms(3) have "\<not> old_value n (Instr sf)" by simp
  from getPointerToObject_extends [OF ptr assms(2) this]
  have e1: "extends n f f1" and p: "\<not> old_value n p" by auto
  from p have "\<forall>v \<in> set [p]. \<not> old_value n v" by simp
  from createInst_extends [OF cast] this
  have e2: "extends n f1 f2" and c: "c = length (instructions f1)" by auto
  from extends_length [OF e1] assms(2) c have fresh: "\<not> old_value n (Instr c)" by simp
  have e: "extends n f f2" using e1 e2 by (rule extends_trans)
  from replaceAllUsesWith_users [OF assms(4) fresh] extends_users [OF e assms(4)]
  have "users f' v = (if v = off then [] else users f v)" by (simp add: f')
  moreover from extends_length [OF e]
  have "length (instructions f) \<le> length (instructions f')"
    by (simp add: f' replaceAllUsesWith_length)
  ultimately show ?thesis by simp
qed

lemma rewrite_loop_users:
  assumes "foldE (rewriteObject fr sf) objs f = Inr f'"
    and "n \<le> length (instructions f)" and "n \<le> sf" and "old_value n v"
  shows "users f' v = (if v \<in> snd ` set objs then [] else users f v)"
  using assms(1,2)
proof (induction objs arbitrary: f)
  case Nil
  then show ?case by simp
next
  case (Cons obj objs)
  obtain object off where obj: "obj = (object, off)" by (cases obj)
  from Cons.prems(1) obtain f1 where
    step: "rewriteObject fr sf (object, off) f = Inr f1"
    and rest: "foldE (rewriteObject fr sf) objs f1 = Inr f'"
    by (auto simp: obj split: sum.splits)
  from rewriteObject_users [OF step Cons.prems(2) assms(3,4)]
  have u1: "users f1 v = (if v = off then [] else users f v)"
    and "length (instructions f) \<le> length (instructions f1)" by auto
  with Cons.prems(2) have "n \<le> length (instructions f1)" by simp
  from Cons.IH [OF rest this] u1 show ?case by (auto simp: obj)
qed

lemma runOnFunction_users:
  assumes "runOnFunction fuel dl fn = Inr (True, fn')"
    and "recoverFrame fuel dl fn = Inr (Some llvmFrame)"
    and "old_value (length (instructions fn)) v"
  shows "users fn' v = (if v \<in> snd ` set (allObjects llvmFrame) then [] else users fn v)"
proof -
  let ?n = "length (instructions fn)"
  from assms(1,2) obtain ip t fn1 sf where
    alloca: "createInst fn \<lparr>getOpcode = Alloca, getType = PointerTy t, getOperands = []\<rparr>
               (Some ip) = Inr (fn1, sf)"
    and loop: "foldE (rewriteObject llvmFrame sf) (allObjects llvmFrame) (setStackFrame sf fn1)
               = Inr fn'"
    by (auto simp: runOnFunction_def split: sum.splits option.splits)
  have "\<forall>v \<in> set (getOperands \<lparr>getOpcode = Alloca, getType = PointerTy t, getOperands = []\<rparr>).
          \<not> old_value ?n v" by simp
  from createInst_extends [OF alloca this]
  have e: "extends ?n fn fn1" and sf: "sf = ?n" by auto
  have same: "users (setStackFrame sf fn1) v = users fn v"
    using extends_users [OF e assms(3)] by (simp add: users_def getInst_def setStackFrame_def)
  have "?n \<le> length (instructions (setStackFrame sf fn1))"
    using extends_length [OF e] by (simp add: setStackFrame_def)
  from rewrite_loop_users [OF loop this _ assms(3)] sf same show ?thesis by simp
qed

subsection \<open>The map of constant offsets\<close>

lemma map_insert_set: "set (map_insert k v m) \<subseteq> insert (k, v) (set m)"
  by (induction m) (auto split: if_splits)

lemma map_insert_sorted:
  assumes "sorted_wrt (<) (map fst m)"
  shows "sorted_wrt (<) (map fst (map_insert k v m))"
  using assms
proof (induction m)
  case Nil
  then show ?case by simp
next
  case (Cons x m)
  obtain k' v' where x: "x = (k', v')" by (cases x)
  have "\<forall>y \<in> set (map_insert k v m). k' < fst y" if "k' < k"
    using that Cons.prems map_insert_set [of k v m] by (auto simp: x)
  with Cons show ?case by (auto simp: x)
qed

lemma map_of_map_insert:
  "sorted_wrt (<) (map fst m) \<Longrightarrow>
   map_of (map_insert k v m) c
     = (if c = k then (case map_of m k of Some x \<Rightarrow> Some x | None \<Rightarrow> Some v) else map_of m c)"
  by (induction m) (auto split: option.splits dest!: map_of_SomeD)

lemma sorted_keys_map_of:
  "sorted_wrt (<) (map fst (m :: offset_map)) \<Longrightarrow> (c, k) \<in> set m \<Longrightarrow> map_of m c = Some k"
  using strict_sorted_iff [of "map fst m"] by (auto intro: map_of_is_SomeI)

lemma analyzeObject_loop_map:
  assumes "analyzeObject_loop f base us (hc, co, vo) = Some (hc', co', vo')"
    and "sorted_wrt (<) (map fst co)"
  shows "sorted_wrt (<) (map fst co')
    \<and> vo' = vo
    \<and> (\<forall>c. map_of co' c
          = (case map_of co c of Some k \<Rightarrow> Some k | None \<Rightarrow> find (adds_constant f base c) us))
    \<and> (\<forall>c k. (c, k) \<in> set co' \<longrightarrow> (c, k) \<in> set co \<or> (k \<in> set us \<and> adds_constant f base c k))"
  using assms
proof (induction us arbitrary: hc co)
  case Nil
  then show ?case by (auto split: option.splits)
next
  case (Cons u us)
  let ?i = "getInst f u"
  show ?case
  proof (cases "isBinaryOperator (getOpcode ?i)")
    case False
    then have na: "\<not> adds_constant f base c u" for c by (simp add: adds_constant_def)
    from False Cons.prems(1) obtain hc1 where
      "analyzeObject_loop f base us (hc1, co, vo) = Some (hc', co', vo')"
      by (auto simp: Let_def split: if_splits)
    from Cons.IH [OF this Cons.prems(2)] na show ?thesis
      by (auto split: option.splits)
  next
    case True
    with Cons.prems(1) obtain bits v where
      add: "getOpcode ?i = Add"
      and rhs: "getOperand ?i (if getOperand ?i 0 = base then 1 else 0) = ConstantInt bits v"
      and rest: "analyzeObject_loop f base us
                   (hc, map_insert (to_int64 (getLimitedValue v)) u co, vo) = Some (hc', co', vo')"
      by (auto simp: Let_def split: if_splits Value.splits)
    let ?c = "to_int64 (getLimitedValue v)"
    have ac: "adds_constant f base c u = (c = ?c)" for c
      using True add rhs by (auto simp: adds_constant_def Let_def)
    note IH = Cons.IH [OF rest map_insert_sorted [OF Cons.prems(2)]]
    have "map_of co' c
        = (case map_of co c of Some k \<Rightarrow> Some k | None \<Rightarrow> find (adds_constant f base c) (u # us))" for c
      using IH by (simp add: ac map_of_map_insert [OF Cons.prems(2)] split: option.splits)
    moreover have "(c, k) \<in> set co \<or> (k \<in> set (u # us) \<and> adds_constant f base c k)"
      if "(c, k) \<in> set co'" for c k
    proof -
      from IH that have "(c, k) \<in> set (map_insert ?c u co) \<or> (k \<in> set us \<and> adds_constant f base c k)"
        by blast
      with map_insert_set [of ?c u co] ac [of c] show ?thesis by auto
    qed
    ultimately show ?thesis using IH by blast
  qed
qed

lemma analyzeObject_map:
  assumes "analyzeObject f base = Some (hc, co, vo)"
  shows "vo = []"
    and "map_of co c = find (adds_constant f base c) (users f base)"
    and "(c, k) \<in> set co \<Longrightarrow> map_of co c = Some k \<and> k \<in> set (users f base)"
proof -
  from assms have loop: "analyzeObject_loop f base (users f base) (False, [], []) = Some (hc, co, vo)"
    by (simp add: analyzeObject_def)
  note m = analyzeObject_loop_map [OF loop]
  from m show "vo = []" by simp
  from m show "map_of co c = find (adds_constant f base c) (users f base)" by simp
  assume ck: "(c, k) \<in> set co"
  from m have "sorted_wrt (<) (map fst co)" by simp
  from sorted_keys_map_of [OF this ck] have "map_of co c = Some k" .
  moreover from m ck have "k \<in> set (users f base)" by auto
  ultimately show "map_of co c = Some k \<and> k \<in> set (users f base)" by simp
qed

subsection \<open>The leaves of the abstract stack\<close>

lemma collect_fields_mem:
  "collect_fields front rs = Inr fs \<Longrightarrow> (off, obj) \<in> set fs \<Longrightarrow> \<exists>c. (c, Inr (Some obj)) \<in> set rs"
proof (induction rs arbitrary: fs)
  case Nil
  then show ?case by simp
next
  case (Cons r rs)
  then show ?case
    by (cases r) (fastforce split: sum.splits option.splits)
qed

lemma readObject_leaves:
  assumes "readObject fuel f b = Inr (Some obj)" and "non_constant b" and "v \<in> set (leaves obj)"
  shows "v = b \<or> (\<exists>k. v = Instr k \<and> recorded f k)"
  using assms
proof (induction fuel arbitrary: b obj v)
  case 0
  then show ?case by simp
next
  case (Suc fuel)
  from Suc.prems(1) obtain hc co vo where an: "analyzeObject f b = Some (hc, co, vo)"
    by (auto split: option.splits)
  note vo = analyzeObject_map(1) [OF an]
  show ?case
  proof (cases "co = []")
    case True
    with Suc.prems an vo show ?thesis by auto
  next
    case False
    with Suc.prems(1) an vo obtain fs where
      coll: "collect_fields (fst (hd co)) (map (\<lambda>(c, i). (c, readObject fuel f (Instr i))) co) = Inr fs"
      and obj: "obj = Structure ((if hc then [(0, Object b)] else []) @ fs)"
      by (auto simp: Let_def split: if_splits sum.splits)
    from Suc.prems(3) obj consider "v = b" | off child where "(off, child) \<in> set fs" "v \<in> set (leaves child)"
      by (auto split: if_splits)
    then show ?thesis
    proof cases
      case 1
      then show ?thesis by simp
    next
      case 2
      from collect_fields_mem [OF coll 2(1)] obtain c i where
        ci: "(c, i) \<in> set co" and rd: "readObject fuel f (Instr i) = Inr (Some child)"
        by auto
      from analyzeObject_map(3) [OF an ci] Suc.prems(2) an have "recorded f i"
        unfolding recorded_def by blast
      with Suc.IH [OF rd _ 2(2)] show ?thesis by auto
    qed
  qed
qed

subsection \<open>The leaves known to the frame\<close>

lemma foldE_invariant:
  assumes "foldE g xs s = Inr s'" and "P s"
    and "\<And>x s s'. x \<in> set xs \<Longrightarrow> P s \<Longrightarrow> g x s = Inr s' \<Longrightarrow> P s'"
  shows "P s'"
  using assms
proof (induction xs arbitrary: s)
  case Nil
  then show ?case by simp
next
  case (Cons x xs)
  from Cons.prems(1) obtain s1 where s1: "g x s = Inr s1" and rest: "foldE g xs s1 = Inr s'"
    by (auto split: sum.splits)
  from Cons.prems(3) [OF _ Cons.prems(2) s1] have "P s1" by simp
  show ?case
  proof (rule Cons.IH [OF rest \<open>P s1\<close>])
    fix y t t'
    assume "y \<in> set xs" "P t" "g y t = Inr t'"
    then show "P t'" using Cons.prems(3) [of y t t'] by simp
  qed
qed

lemma allObjects_createLink: "allObjects (fst (createLink fr)) = allObjects fr"
  by (simp add: createLink_def)

lemma allObjects_linkFor: "allObjects (fst (linkFor fr k)) = allObjects fr"
  by (simp add: linkFor_def createLink_def split: option.splits)

lemma allObjects_setIndex: "allObjects (setIndex fr l idx t) = allObjects fr"
  by (simp add: setIndex_def)

lemma allObjects_setParent: "setParent fr l p = Inr fr' \<Longrightarrow> allObjects fr' = allObjects fr"
  by (auto simp: setParent_def split: if_splits)

lemma allObjects_reduceStructField:
  assumes "reduceStructField dl fr tas pl idx = Inr (fr', t)"
  shows "allObjects fr' = allObjects fr"
proof -
  from assms obtain count resultType gep where
    red: "reduce dl tas = Inr (count, resultType, gep)" and nz: "count \<noteq> 0"
    by (auto simp: reduceStructField_def split: sum.splits if_splits)
  let ?P = "\<lambda>x. allObjects x = allObjects fr"
  show ?thesis
  proof (cases "count = 1")
    case True
    with assms red obtain
      loop: "foldE (\<lambda>access fr.
                let (fr1, fieldLink) = linkFor fr (ta_object access)
                in setParent (setIndex fr1 fieldLink (32, idx mod 4294967296) (ta_type access))
                     fieldLink pl) tas fr = Inr fr'"
      by (auto simp: reduceStructField_def Let_def split: sum.splits)
    show ?thesis
    proof (rule foldE_invariant [OF loop, where P = ?P])
      show "?P fr" by simp
    next
      fix x s s'
      assume "?P s" and step: "(let (fr1, fieldLink) = linkFor s (ta_object x)
                in setParent (setIndex fr1 fieldLink (32, idx mod 4294967296) (ta_type x))
                     fieldLink pl) = Inr s'"
      obtain fr1 fieldLink where lf: "linkFor s (ta_object x) = (fr1, fieldLink)"
        by (cases "linkFor s (ta_object x)")
      with allObjects_linkFor [of s "ta_object x"] have "allObjects fr1 = allObjects s" by simp
      with step lf \<open>?P s\<close> show "?P s'"
        by (auto dest!: allObjects_setParent simp: allObjects_setIndex)
    qed
  next
    case False
    obtain fr1 structureLink where cl: "createLink fr = (fr1, structureLink)"
      by (cases "createLink fr")
    with allObjects_createLink [of fr] have a1: "allObjects fr1 = allObjects fr" by simp
    from False nz assms red cl obtain fr2 where
      sp: "setParent fr1 structureLink pl = Inr fr2"
      and loop: "foldE (\<lambda>access fr.
                case map_of gep (ta_object access) of
                  None \<Rightarrow> Inl Assert_gep_missing
                | Some i \<Rightarrow>
                   (let (fr1, fieldLink) = linkFor fr (ta_object access)
                    in setParent
                         (setIndex fr1 fieldLink (32, i mod 4294967296) (ta_type access))
                         fieldLink structureLink))
              tas (setIndex fr2 structureLink (32, idx mod 4294967296) resultType) = Inr fr'"
      by (auto simp: reduceStructField_def Let_def split: sum.splits)
    show ?thesis
    proof (rule foldE_invariant [OF loop, where P = ?P])
      show "?P (setIndex fr2 structureLink (32, idx mod 4294967296) resultType)"
        using allObjects_setParent [OF sp] a1 by (simp add: allObjects_setIndex)
    next
      fix x s s'
      assume "?P s" and step: "(case map_of gep (ta_object x) of
                  None \<Rightarrow> Inl Assert_gep_missing
                | Some i \<Rightarrow>
                   (let (fr1, fieldLink) = linkFor s (ta_object x)
                    in setParent
                         (setIndex fr1 fieldLink (32, i mod 4294967296) (ta_type x))
                         fieldLink structureLink)) = Inr s'"
      obtain fr1 fieldLink where lf: "linkFor s (ta_object x) = (fr1, fieldLink)"
        by (cases "linkFor s (ta_object x)")
      with allObjects_linkFor [of s "ta_object x"] have "allObjects fr1 = allObjects s" by simp
      with step lf \<open>?P s\<close> show "?P s'"
        by (auto dest!: allObjects_setParent simp: allObjects_setIndex split: option.splits)
    qed
  qed
qed

lemma allObjects_representLeaf:
  "representLeaf fuel dl f object offset fr = Inr (Some fr') \<Longrightarrow>
   allObjects fr' = allObjects fr @ [(object, offset)]"
  by (auto simp: representLeaf_def split: sum.splits option.splits if_splits)

lemma representObject_allObjects:
  "representObject fuel dl f object obj fr = Inr (Some fr') \<Longrightarrow>
     snd ` set (allObjects fr') \<subseteq> snd ` set (allObjects fr) \<union> set (leaves obj)"
  and representFields_allObjects:
  "representFields fuel dl f object thisLink i members st = Inr (Some st') \<Longrightarrow>
     snd ` set (allObjects (fst st'))
       \<subseteq> snd ` set (allObjects (fst st)) \<union> (\<Union>m \<in> set members. set (leaves (snd m)))"
proof (induction fuel dl f object obj fr and fuel dl f object thisLink i members st
    arbitrary: fr' and st' rule: representObject_representFields.induct)
  case (1 fuel dl f object offset fr)
  from allObjects_representLeaf [of fuel dl f object offset fr fr'] "1.prems"
  show ?case by auto
next
  case (2 fuel dl f object members fr)
  obtain fr1 thisLink where lf: "linkFor fr object = (fr1, thisLink)"
    by (cases "linkFor fr object")
  with allObjects_linkFor [of fr object] have a1: "allObjects fr1 = allObjects fr" by simp
  from "2.prems" lf obtain fr2 fieldTypes typedAccesses where
    flds: "representFields fuel dl f object thisLink 0 members (fr1, [], [])
            = Inr (Some (fr2, fieldTypes, typedAccesses))"
    by (auto split: sum.splits option.splits)
  from "2.IH" [OF refl lf [symmetric] flds] a1
  have sub: "snd ` set (allObjects fr2)
      \<subseteq> snd ` set (allObjects fr) \<union> (\<Union>m \<in> set members. set (leaves (snd m)))" by simp
  have "allObjects fr' = allObjects fr2"
  proof (cases "typedAccesses = []")
    case True
    with "2.prems" lf flds show ?thesis by (auto split: if_splits)
  next
    case False
    with "2.prems" lf flds obtain fr3 result where
      "reduceStructField dl fr2 typedAccesses thisLink (int (length fieldTypes)) = Inr (fr3, result)"
      and "allObjects fr' = allObjects fr3"
      by (auto split: sum.splits if_splits)
    with allObjects_reduceStructField show ?thesis by metis
  qed
  with sub show ?case by simp
next
  case (3 fuel dl f object thisLink i st)
  then show ?case by simp
next
  case (4 fuel dl f object thisLink i offset fieldObject rest fr fieldTypes typedAccesses)
  from "4.prems" obtain fr1 fieldType where
    child: "representObject fuel dl f (object @ [i]) fieldObject fr = Inr (Some fr1)"
    and ft: "map_of (typeMap fr1) (object @ [i]) = Some fieldType"
    by (auto split: sum.splits option.splits)
  from "4.IH"(1) [OF child]
  have c: "snd ` set (allObjects fr1) \<subseteq> snd ` set (allObjects fr) \<union> set (leaves fieldObject)" .
  let ?ins = "insert_access dl typedAccesses offset (object @ [i]) fieldType"
  show ?case
  proof (cases "fst ?ins")
    case True
    then obtain typedAccesses' where ins: "?ins = (True, typedAccesses')"
      by (cases ?ins) auto
    from "4.prems" child ft have
      r: "representFields fuel dl f object thisLink (Suc i) rest (fr1, fieldTypes, typedAccesses')
          = Inr (Some st')" by (simp add: ins)
    from "4.IH"(2) [OF child refl ft ins [symmetric] refl r] c show ?thesis by auto
  next
    case False
    then obtain typedAccesses' where ins: "?ins = (False, typedAccesses')"
      by (cases ?ins) auto
    from "4.prems" child ft obtain fr2 result where
      red: "reduceStructField dl fr1 typedAccesses thisLink (int (length fieldTypes))
            = Inr (fr2, result)"
      by (auto simp: ins split: sum.splits)
    let ?padding = "to_uint64 (offset - window_endOffset dl typedAccesses)"
    let ?ft = "(fieldTypes @ [result])
                 @ (if ?padding > 0 then [ArrayTy (IntegerTy 8) ?padding] else [])"
    from "4.prems" child ft red have
      r: "representFields fuel dl f object thisLink (Suc i) rest
            (fr2, ?ft, snd (insert_access dl [] offset (object @ [i]) fieldType)) = Inr (Some st')"
      by (simp add: Let_def ins)
    from "4.IH"(3) [OF child refl ft ins [symmetric] refl red refl refl refl r]
      allObjects_reduceStructField [OF red] c
    show ?thesis by auto
  qed
qed

lemma recorded_user:
  assumes "recorded f k"
  shows "k < length (instructions f)"
proof -
  from assms obtain b c hc co vo where
    an: "analyzeObject f b = Some (hc, co, vo)" and m: "map_of co c = Some k"
    unfolding recorded_def by blast
  from m have "(c, k) \<in> set co" by (rule map_of_SomeD)
  from analyzeObject_map(3) [OF an this] have "k \<in> set (users f b)" by simp
  then show ?thesis by (simp add: users_mem)
qed

lemma allObjects_representRoot:
  assumes "representRoot fuel dl f root = Inr (Some fr)"
  shows "snd ` set (allObjects fr) \<subseteq> set (leaves root)"
proof -
  from assms obtain fr0 rootType where
    rep: "representObject fuel dl f [] root emptyFrame = Inr (Some fr0)"
    and fr: "fr = setIndex (fst (linkFor fr0 [])) (snd (linkFor fr0 [])) (64, 0) rootType"
    by (auto simp: representRoot_def Let_def split: sum.splits option.splits prod.splits)
  from fr have "allObjects fr = allObjects fr0"
    by (simp add: allObjects_setIndex allObjects_linkFor)
  with representObject_allObjects [OF rep] show ?thesis by (simp add: emptyFrame_def)
qed

lemma recoverFrame_leaves:
  assumes "recoverFrame fuel dl fn = Inr (Some fr)" and "v \<in> snd ` set (allObjects fr)"
  shows "(\<exists>i. v = Argument i) \<or> (\<exists>k. v = Instr k \<and> recorded fn k)"
proof -
  from assms(1) obtain i root where
    rd: "readObject fuel fn (Argument i) = Inr (Some root)"
    and rep: "representRoot fuel dl fn root = Inr (Some fr)"
    by (auto simp: recoverFrame_def getStackPointer_def
        split: sum.splits option.splits if_splits StackObject.splits)
  from allObjects_representRoot [OF rep] assms(2) have "v \<in> set (leaves root)" by auto
  from readObject_leaves [OF rd _ this] show ?thesis by auto
qed

lemma recoverFrame_leaves_old:
  assumes "recoverFrame fuel dl fn = Inr (Some fr)" and "v \<in> snd ` set (allObjects fr)"
  shows "old_value (length (instructions fn)) v"
  using recoverFrame_leaves [OF assms] by (auto dest: recorded_user)

lemma adds_constant_unique:
  "adds_constant f base c u \<Longrightarrow> adds_constant f base c' u \<Longrightarrow> c = c'"
  by (auto simp: adds_constant_def Let_def split: Value.splits)

lemma not_first_not_recorded:
  assumes first: "find (adds_constant fn base c) (users fn base) = Some a1"
    and a2: "adds_constant fn base c a2" "a2 \<noteq> a1"
    and ops: "\<forall>v \<in> set (getOperands (getInst fn a2)). v = base \<or> \<not> non_constant v"
  shows "\<not> recorded fn a2"
proof
  assume "recorded fn a2"
  then obtain b c' hc co vo where
    b: "non_constant b" and an: "analyzeObject fn b = Some (hc, co, vo)"
    and m: "map_of co c' = Some a2"
    unfolding recorded_def by blast
  from m have "(c', a2) \<in> set co" by (rule map_of_SomeD)
  from analyzeObject_map(3) [OF an this] have "a2 \<in> set (users fn b)" by simp
  then have "b \<in> set (getOperands (getInst fn a2))" by (simp add: users_mem getInst_def)
  with ops b have "b = base" by auto
  with analyzeObject_map(2) [OF an, of c'] m
  have f: "find (adds_constant fn base c') (users fn base) = Some a2" by simp
  then have "adds_constant fn base c' a2" by (auto simp: find_Some_iff)
  with a2(1) have "c' = c" by (rule adds_constant_unique [symmetric])
  with f first a2(2) show False by simp
qed

subsection \<open>The uses of the leaves after the pass\<close>

lemma two_adds_run: "runOnFunction 10 dl64 two_adds = Inr (True, two_adds_rewritten)"
  by code_simp

lemma S2_frame: "recoverFrame 10 dl64 S2 = Inr (Some (one_leaf_frame (Instr 0)))"
  by code_simp

lemma two_adds_frame: "recoverFrame 10 dl64 two_adds = Inr (Some (one_leaf_frame (Instr 3)))"
  by code_simp

text \<open>
  C8: after a successful run of the pass, for every leaf in the list of all objects of
  the frame, the value that produced the leaf's offset has no users left at all, so
  none but the pointer-to-integer cast emitted for the leaf.
\<close>

theorem leaves_have_no_users_left:
  assumes "runOnFunction fuel dl fn = Inr (True, fn')"
    and "recoverFrame fuel dl fn = Inr (Some llvmFrame)"
    and "(object, offsetInstruction) \<in> set (allObjects llvmFrame)"
  shows "users fn' offsetInstruction = []"
proof -
  from assms(3) have mem: "offsetInstruction \<in> snd ` set (allObjects llvmFrame)" by force
  from recoverFrame_leaves_old [OF assms(2) mem]
  have "old_value (length (instructions fn)) offsetInstruction" .
  from runOnFunction_users [OF assms(1,2) this] mem show ?thesis by simp
qed

theorem leaves_have_no_users_left_witness:
  "users S2_rewritten (Instr 0) = []"
proof -
  have "([0], Instr 0) \<in> set (allObjects (one_leaf_frame (Instr 0)))"
    by (simp add: one_leaf_frame_def)
  from leaves_have_no_users_left [OF S2_run S2_frame this] show ?thesis .
qed

text \<open>
  C10: let \<open>a1\<close> be the first user of a base, in the order of its use list, that adds
  the constant \<open>c\<close> to it, and \<open>a2\<close> another user that adds the same constant, an add
  of the base and a constant. Then the classifier records \<open>a1\<close> for \<open>c\<close>; after a
  successful run \<open>a2\<close> is not the offset value of any leaf of the frame, so it is not
  rewritten, and its users are the same as before.
\<close>

theorem second_add_not_rewritten:
  assumes "runOnFunction fuel dl fn = Inr (True, fn')"
    and "recoverFrame fuel dl fn = Inr (Some llvmFrame)"
    and "find (adds_constant fn base c) (users fn base) = Some a1"
    and "a2 \<in> set (users fn base)" and "adds_constant fn base c a2" and "a2 \<noteq> a1"
    and "\<forall>v \<in> set (getOperands (getInst fn a2)). v = base \<or> \<not> non_constant v"
  shows "(\<forall>hc co vo. analyzeObject fn base = Some (hc, co, vo) \<longrightarrow> map_of co c = Some a1)
    \<and> Instr a2 \<notin> snd ` set (allObjects llvmFrame)
    \<and> users fn' (Instr a2) = users fn (Instr a2)"
proof -
  have rec: "\<forall>hc co vo. analyzeObject fn base = Some (hc, co, vo) \<longrightarrow> map_of co c = Some a1"
    using analyzeObject_map(2) assms(3) by simp
  from not_first_not_recorded [OF assms(3,5,6,7)] have nr: "\<not> recorded fn a2" .
  with recoverFrame_leaves [OF assms(2)]
  have leaf: "Instr a2 \<notin> snd ` set (allObjects llvmFrame)" by blast
  from assms(4) have "old_value (length (instructions fn)) (Instr a2)"
    by (simp add: users_mem)
  from runOnFunction_users [OF assms(1,2) this] leaf
  have "users fn' (Instr a2) = users fn (Instr a2)" by simp
  with rec leaf show ?thesis by simp
qed

theorem second_add_not_rewritten_witness:
  "analyzeObject two_adds (Argument 0) = Some (False, [(0, 3)], [])
   \<and> Instr 0 \<notin> snd ` set (allObjects (one_leaf_frame (Instr 3)))
   \<and> users two_adds_rewritten (Instr 0) = [1]"
proof -
  have first: "find (adds_constant two_adds (Argument 0) 0) (users two_adds (Argument 0)) = Some 3"
    by code_simp
  have user: "0 \<in> set (users two_adds (Argument 0))"
    by code_simp
  have add: "adds_constant two_adds (Argument 0) 0 0"
    by code_simp
  have ops: "\<forall>v \<in> set (getOperands (getInst two_adds 0)). v = Argument 0 \<or> \<not> non_constant v"
    by code_simp
  have an: "analyzeObject two_adds (Argument 0) = Some (False, [(0, 3)], [])"
    by code_simp
  have before: "users two_adds (Instr 0) = [1]"
    by code_simp
  from second_add_not_rewritten [OF two_adds_run two_adds_frame first user add _ ops] an before
  show ?thesis by simp
qed

end
